theory Spec2Isabelle
  imports Complex_Main "HOL-Library.Word"
begin

section \<open>JavaScript numbers\<close>

text \<open>
  The pipeline of \<^verbatim>\<open>route.ts\<close> computes on JavaScript numbers, the binary64 values of
  IEEE 754. A number is one of the three special values or \<open>Num r\<close> with \<open>r\<close> the real
  value of a finite double. Every arithmetic operation computes the exact real result
  and rounds it to the nearest double, a tie going to the even significand, and to an
  infinity when the rounded magnitude reaches \<open>2\<^sup>1\<^sup>0\<^sup>2\<^sup>4\<close>. A store into a \<^verbatim>\<open>Float32Array\<close>
  rounds in the same way to binary32. Zero carries no sign.
\<close>

datatype jsnum = NaN | PosInf | NegInf | Num real

definition signed_inf :: "bool \<Rightarrow> jsnum" where
  "signed_inf positive = (if positive then PosInf else NegInf)"

text \<open>Rounding to the nearest integer, a tie going to the even one.\<close>

definition round_half_even :: "real \<Rightarrow> int" where
  "round_half_even r =
     (let f = \<lfloor>r\<rfloor> in
      if of_int f + 1 / 2 < r then f + 1
      else if r < of_int f + 1 / 2 then f
      else if even f then f else f + 1)"

text \<open>
  Rounding of a real to the binary format with \<open>p\<close> significand bits and exponents
  from \<open>emin\<close> to \<open>emax\<close>: the value is rounded to a multiple of the unit in the last
  place \<open>2\<^sup>e\<^sup>-\<^sup>p\<^sup>+\<^sup>1\<close>, where \<open>e\<close> is its binary exponent and at least \<open>emin\<close> (which
  gives the subnormal numbers).
\<close>

definition binary_round :: "nat \<Rightarrow> int \<Rightarrow> int \<Rightarrow> real \<Rightarrow> jsnum" where
  "binary_round p emin emax x =
     (if x = 0 then Num 0
      else
        let e = max \<lfloor>log 2 \<bar>x\<bar>\<rfloor> emin;
            q = 2 powi (e - int p + 1);
            r = real_of_int (round_half_even (x / q)) * q
        in if 2 powi (emax + 1) \<le> \<bar>r\<bar> then signed_inf (0 < x) else Num r)"

definition d64 :: "real \<Rightarrow> jsnum" where
  "d64 = binary_round 53 (- 1022) 1023"

definition f32 :: "real \<Rightarrow> jsnum" where
  "f32 = binary_round 24 (- 126) 127"

text \<open>A decimal literal of the source denotes the double nearest to it.\<close>

definition lit :: "real \<Rightarrow> jsnum" where
  "lit x = d64 x"

fun num_neg :: "jsnum \<Rightarrow> jsnum" where
  "num_neg NaN = NaN"
| "num_neg PosInf = NegInf"
| "num_neg NegInf = PosInf"
| "num_neg (Num a) = Num (- a)"

fun num_add :: "jsnum \<Rightarrow> jsnum \<Rightarrow> jsnum" where
  "num_add (Num a) (Num b) = d64 (a + b)"
| "num_add NaN _ = NaN"
| "num_add _ NaN = NaN"
| "num_add PosInf NegInf = NaN"
| "num_add NegInf PosInf = NaN"
| "num_add PosInf _ = PosInf"
| "num_add _ PosInf = PosInf"
| "num_add NegInf _ = NegInf"
| "num_add _ NegInf = NegInf"

definition num_sub :: "jsnum \<Rightarrow> jsnum \<Rightarrow> jsnum" where
  "num_sub a b = num_add a (num_neg b)"

text \<open>The sign of a number that is neither \<open>NaN\<close> nor zero: \<open>True\<close> for positive.\<close>

fun num_sign :: "jsnum \<Rightarrow> bool option" where
  "num_sign NaN = None"
| "num_sign PosInf = Some True"
| "num_sign NegInf = Some False"
| "num_sign (Num a) = (if a = 0 then None else Some (0 < a))"

fun num_mul :: "jsnum \<Rightarrow> jsnum \<Rightarrow> jsnum" where
  "num_mul (Num a) (Num b) = d64 (a * b)"
| "num_mul NaN _ = NaN"
| "num_mul _ NaN = NaN"
| "num_mul a b =
     (case (num_sign a, num_sign b) of
        (Some s, Some t) \<Rightarrow> signed_inf (s = t)
      | _ \<Rightarrow> NaN)"

text \<open>
  Division. A zero divisor is the positive zero: the only zero divisor of the program is
  the length of an empty buffer.
\<close>

fun num_div :: "jsnum \<Rightarrow> jsnum \<Rightarrow> jsnum" where
  "num_div NaN _ = NaN"
| "num_div _ NaN = NaN"
| "num_div (Num a) (Num b) =
     (if b \<noteq> 0 then d64 (a / b)
      else if a = 0 then NaN
      else signed_inf (0 < a))"
| "num_div (Num a) _ = Num 0"
| "num_div a (Num b) =
     (case num_sign a of
        Some s \<Rightarrow> signed_inf (s = (0 \<le> b))
      | None \<Rightarrow> NaN)"
| "num_div _ _ = NaN"

text \<open>
  \<^verbatim>\<open>Math.sqrt\<close> is correctly rounded. \<^verbatim>\<open>Math.exp\<close> is an approximation that the language
  leaves to the implementation; the model takes the correctly rounded value, and the
  result about the confidence relies only on its never being \<open>NaN\<close> on a number.
  \<^verbatim>\<open>Math.floor\<close> and \<^verbatim>\<open>Math.abs\<close> are exact: the floor and the absolute value of a
  double are doubles.
\<close>

fun num_sqrt :: "jsnum \<Rightarrow> jsnum" where
  "num_sqrt NaN = NaN"
| "num_sqrt PosInf = PosInf"
| "num_sqrt NegInf = NaN"
| "num_sqrt (Num a) = (if a < 0 then NaN else d64 (sqrt a))"

fun num_exp :: "jsnum \<Rightarrow> jsnum" where
  "num_exp NaN = NaN"
| "num_exp PosInf = PosInf"
| "num_exp NegInf = Num 0"
| "num_exp (Num a) = d64 (exp a)"

fun num_floor :: "jsnum \<Rightarrow> jsnum" where
  "num_floor (Num a) = Num (of_int \<lfloor>a\<rfloor>)"
| "num_floor a = a"

fun num_abs :: "jsnum \<Rightarrow> jsnum" where
  "num_abs NaN = NaN"
| "num_abs PosInf = PosInf"
| "num_abs NegInf = PosInf"
| "num_abs (Num a) = Num \<bar>a\<bar>"

text \<open>
  The remainder operator \<^verbatim>\<open>%\<close>: the result has the sign of the dividend, the quotient
  being truncated towards zero. The remainder of two doubles is a double, so nothing is
  rounded.
\<close>

definition trunc :: "real \<Rightarrow> real" where
  "trunc r = (if 0 \<le> r then of_int \<lfloor>r\<rfloor> else of_int \<lceil>r\<rceil>)"

fun num_mod :: "jsnum \<Rightarrow> jsnum \<Rightarrow> jsnum" where
  "num_mod NaN _ = NaN"
| "num_mod _ NaN = NaN"
| "num_mod PosInf _ = NaN"
| "num_mod NegInf _ = NaN"
| "num_mod (Num a) (Num b) = (if b = 0 then NaN else Num (a - b * trunc (a / b)))"
| "num_mod (Num a) _ = Num a"

text \<open>\<^verbatim>\<open>Math.min\<close> and \<^verbatim>\<open>Math.max\<close> of two arguments: \<open>NaN\<close> if either is.\<close>

fun num_min :: "jsnum \<Rightarrow> jsnum \<Rightarrow> jsnum" where
  "num_min NaN _ = NaN"
| "num_min _ NaN = NaN"
| "num_min NegInf _ = NegInf"
| "num_min _ NegInf = NegInf"
| "num_min PosInf b = b"
| "num_min a PosInf = a"
| "num_min (Num a) (Num b) = Num (min a b)"

fun num_max :: "jsnum \<Rightarrow> jsnum \<Rightarrow> jsnum" where
  "num_max NaN _ = NaN"
| "num_max _ NaN = NaN"
| "num_max PosInf _ = PosInf"
| "num_max _ PosInf = PosInf"
| "num_max NegInf b = b"
| "num_max a NegInf = a"
| "num_max (Num a) (Num b) = Num (max a b)"

text \<open>The comparison \<^verbatim>\<open><=\<close>: false as soon as one side is \<open>NaN\<close>.\<close>

fun num_le :: "jsnum \<Rightarrow> jsnum \<Rightarrow> bool" where
  "num_le NaN _ = False"
| "num_le _ NaN = False"
| "num_le NegInf _ = True"
| "num_le _ PosInf = True"
| "num_le (Num a) (Num b) = (a \<le> b)"
| "num_le _ _ = False"

section \<open>Typed arrays\<close>

text \<open>
  A \<^verbatim>\<open>Uint8Array\<close> or \<^verbatim>\<open>Uint8ClampedArray\<close> is a list of bytes, a \<^verbatim>\<open>Float32Array\<close> a
  list of numbers. Reading past the end gives \<^verbatim>\<open>undefined\<close>, which the arithmetic of
  the program converts to \<open>NaN\<close>; writing past the end is ignored.
\<close>

type_synonym u8 = "8 word"

definition u8_get :: "u8 list \<Rightarrow> nat \<Rightarrow> jsnum" where
  "u8_get data i = (if i < length data then Num (real (unat (data ! i))) else NaN)"

definition f32_get :: "jsnum list \<Rightarrow> int \<Rightarrow> jsnum" where
  "f32_get gray i = (if 0 \<le> i \<and> i < int (length gray) then gray ! nat i else NaN)"

definition typed_set :: "'a list \<Rightarrow> nat \<Rightarrow> 'a \<Rightarrow> 'a list" where
  "typed_set xs i v = (if i < length xs then xs[i := v] else xs)"

text \<open>The conversion of a number stored into a \<^verbatim>\<open>Float32Array\<close>.\<close>

fun to_f32 :: "jsnum \<Rightarrow> jsnum" where
  "to_f32 (Num r) = f32 r"
| "to_f32 v = v"

text \<open>
  The conversion of a number stored into a \<^verbatim>\<open>Uint8ClampedArray\<close> (ToUint8Clamp of the
  language): \<open>NaN\<close> becomes 0, the value is clamped to \<open>[0, 255]\<close> and rounded to the
  nearest integer, a tie going to the even one.
\<close>

fun ToUint8Clamp :: "jsnum \<Rightarrow> u8" where
  "ToUint8Clamp NaN = 0"
| "ToUint8Clamp PosInf = 255"
| "ToUint8Clamp NegInf = 0"
| "ToUint8Clamp (Num r) =
     (if r \<le> 0 then 0 else if 255 \<le> r then 255 else word_of_int (round_half_even r))"

section \<open>The vehicle catalog\<close>

text \<open>
  The fields \<^verbatim>\<open>make\<close> and \<^verbatim>\<open>class\<close> of the source are \<open>vmake\<close> and \<open>vclass\<close> here
  (both names are taken in Isabelle).
\<close>

record VehicleInfo =
  vmake :: string
  model :: string
  vclass :: string
  tire :: string

definition VEHICLES :: "VehicleInfo list" where
  "VEHICLES =
     [\<lparr>vmake = ''Toyota'', model = ''Camry'', vclass = ''Sedan'', tire = ''215/55R17''\<rparr>,
      \<lparr>vmake = ''Honda'', model = ''Civic'', vclass = ''Compact'', tire = ''215/50R17''\<rparr>,
      \<lparr>vmake = ''Ford'', model = ''F-150'', vclass = ''Pickup'', tire = ''275/65R18''\<rparr>,
      \<lparr>vmake = ''BMW'', model = ''3 Series'', vclass = ''Sports Sedan'', tire = ''225/45R18''\<rparr>,
      \<lparr>vmake = ''Audi'', model = ''Q5'', vclass = ''SUV'', tire = ''235/55R19''\<rparr>]"

section \<open>Grayscale conversion\<close>

text \<open>
  \<^verbatim>\<open>computeGrayscale\<close> of the API route. The loop advances \<open>i\<close> by 4 and \<open>g\<close> by 1 while
  \<open>i < data.length\<close>; the three channels read are \<open>data[i]\<close>, \<open>data[i + 1]\<close> and
  \<open>data[i + 2]\<close>, named \<open>r\<close>, \<open>b\<close> and \<open>gb\<close> in the source. The store into \<open>gray\<close>,
  a \<^verbatim>\<open>Float32Array\<close>, rounds the double to binary32.
\<close>

definition luma :: "jsnum \<Rightarrow> jsnum \<Rightarrow> jsnum \<Rightarrow> jsnum" where
  "luma r b gb =
     num_div (num_add (num_add (num_mul (lit 0.299) r) (num_mul (lit 0.587) b))
                      (num_mul (lit 0.114) gb))
             (Num 255)"

text \<open>
  The sample as the specification words it: the exact value of the weighted sum of the
  three channels. It is the reference against which \<open>computeGrayscale\<close> is compared.
\<close>

definition luma_exact :: "real \<Rightarrow> real \<Rightarrow> real \<Rightarrow> real" where
  "luma_exact r b gb = (0.299 * r + 0.587 * b + 0.114 * gb) / 255"

function grayscale_loop :: "u8 list \<Rightarrow> nat \<Rightarrow> nat \<Rightarrow> jsnum list \<Rightarrow> jsnum list" where
  "grayscale_loop data i g gray =
     (if i < length data
      then grayscale_loop data (i + 4) (g + 1)
             (typed_set gray g
                (to_f32 (luma (u8_get data i) (u8_get data (i + 1)) (u8_get data (i + 2)))))
      else gray)"
  by pat_completeness auto
termination
  by (relation "measure (\<lambda>(data, i, g, gray). length data - i)") auto

declare grayscale_loop.simps [simp del]

definition computeGrayscale :: "u8 list \<Rightarrow> jsnum list" where
  "computeGrayscale data = grayscale_loop data 0 0 (replicate (length data div 4) (Num 0))"

section \<open>Edge detection\<close>

text \<open>
  \<^verbatim>\<open>sobelEdges\<close> of the API route. The two inner loops run \<open>ky\<close> and \<open>kx\<close> over
  \<open>-1, 0, 1\<close> and carry \<open>sx\<close>, \<open>sy\<close> and the kernel position \<open>k\<close>; the two outer
  loops run \<open>y\<close> over \<open>1 \<le> y < height - 1\<close> and \<open>x\<close> over \<open>1 \<le> x < width - 1\<close> and store
  one magnitude each into \<open>out\<close>, which starts as \<open>width * height\<close> zeros.
\<close>

definition gx :: "jsnum list" where
  "gx = map Num [-1, 0, 1, -2, 0, 2, -1, 0, 1]"

definition gy :: "jsnum list" where
  "gy = map Num [-1, -2, -1, 0, 0, 0, 1, 2, 1]"

definition sobel_tap ::
  "jsnum list \<Rightarrow> nat \<Rightarrow> nat \<Rightarrow> nat \<Rightarrow> int \<Rightarrow> jsnum \<times> jsnum \<times> nat \<Rightarrow> int \<Rightarrow> jsnum \<times> jsnum \<times> nat" where
  "sobel_tap gray width x y ky acc kx =
     (case acc of (sx, sy, k) \<Rightarrow>
        let ix = int x + kx;
            iy = int y + ky;
            idx = iy * int width + ix;
            val = f32_get gray idx
        in (num_add sx (num_mul (gx ! k) val), num_add sy (num_mul (gy ! k) val), k + 1))"

definition sobel_mag :: "jsnum list \<Rightarrow> nat \<Rightarrow> nat \<Rightarrow> nat \<Rightarrow> jsnum" where
  "sobel_mag gray width x y =
     (case foldl (\<lambda>acc ky. foldl (sobel_tap gray width x y ky) acc [-1, 0, 1])
                 (Num 0, Num 0, 0) [-1, 0, 1] of
        (sx, sy, k) \<Rightarrow>
          num_min (Num 255) (num_mul (num_sqrt (num_add (num_mul sx sx) (num_mul sy sy))) (Num 255)))"

definition sobel_row :: "jsnum list \<Rightarrow> nat \<Rightarrow> nat \<Rightarrow> u8 list \<Rightarrow> u8 list" where
  "sobel_row gray width y out =
     foldl (\<lambda>out x. typed_set out (y * width + x) (ToUint8Clamp (sobel_mag gray width x y)))
           out [1..<width - 1]"

definition sobelEdges :: "jsnum list \<Rightarrow> nat \<Rightarrow> nat \<Rightarrow> u8 list" where
  "sobelEdges gray width height =
     foldl (\<lambda>out y. sobel_row gray width y out) (replicate (width * height) 0) [1..<height - 1]"

text \<open>
  The response of a 3\<times>3 kernel at pixel \<open>(x, y)\<close> of a row-major image: the sum over
  the nine neighbours of kernel entry times sample. \<open>kernel_acc\<close> accumulates it in the
  arithmetic of the source, from the first kernel entry to the last; \<open>kernel_response\<close>
  is the exact sum over real samples, as the specification words it.
\<close>

definition kernel_acc :: "jsnum list \<Rightarrow> jsnum list \<Rightarrow> nat \<Rightarrow> nat \<Rightarrow> nat \<Rightarrow> jsnum" where
  "kernel_acc ker gray width x y =
     foldl (\<lambda>s k. num_add s
                     (num_mul (ker ! k) (gray ! ((y + k div 3 - 1) * width + (x + k mod 3 - 1)))))
           (Num 0) [0, 1, 2, 3, 4, 5, 6, 7, 8]"

definition Gx :: "real list" where
  "Gx = [-1, 0, 1, -2, 0, 2, -1, 0, 1]"

definition Gy :: "real list" where
  "Gy = [-1, -2, -1, 0, 0, 0, 1, 2, 1]"

definition kernel_response :: "real list \<Rightarrow> real list \<Rightarrow> nat \<Rightarrow> nat \<Rightarrow> nat \<Rightarrow> real" where
  "kernel_response ker rs width x y =
     (\<Sum>k < 9. ker ! k * rs ! ((y + k div 3 - 1) * width + (x + k mod 3 - 1)))"

section \<open>Feature extraction\<close>

text \<open>
  The error taxonomy of the specification. The functions of the source contain no
  \<^verbatim>\<open>throw\<close> and no guard: \<open>featureSignature\<close> returns on every buffer, which its result
  type records with \<open>Inr\<close>.
\<close>

datatype error = InvalidInput | UpstreamDecodeError

record features =
  mean :: jsnum
  std :: jsnum
  skew :: jsnum

definition featureSignature :: "jsnum list \<Rightarrow> error + features" where
  "featureSignature gray =
     (let n = length gray;
          mean = num_div (foldl (\<lambda>mean i. num_add mean (f32_get gray (int i))) (Num 0) [0..<n])
                         (Num (real n));
          variance = num_div
            (foldl (\<lambda>variance i.
                      let d = num_sub (f32_get gray (int i)) mean
                      in num_add variance (num_mul d d))
                   (Num 0) [0..<n])
            (Num (real n));
          std = num_sqrt variance;
          skew = num_div
            (foldl (\<lambda>skew i.
                      let z = num_div (num_sub (f32_get gray (int i)) mean)
                                      (num_add std (lit (1 / 10 ^ 6)))
                      in num_add skew (num_mul (num_mul z z) z))
                   (Num 0) [0..<n])
            (Num (real n))
      in Inr \<lparr>mean = mean, std = std, skew = skew\<rparr>)"

section \<open>Classification\<close>

text \<open>
  Lines 105 to 108 of the route: the catalog index (\<open>weighted_sum\<close> is the argument of
  \<^verbatim>\<open>Math.floor\<close>), the catalog lookup and the confidence. An array read with a number that is not an index of the array gives
  \<^verbatim>\<open>undefined\<close>, here \<open>None\<close>.
\<close>

definition weighted_sum :: "features \<Rightarrow> jsnum" where
  "weighted_sum f =
     num_add (num_add (num_mul (mean f) (Num 7)) (num_mul (std f) (Num 11)))
             (num_mul (skew f) (Num 13))"

definition idx :: "features \<Rightarrow> jsnum" where
  "idx f = num_mod (num_abs (num_floor (weighted_sum f))) (Num (real (length VEHICLES)))"

definition array_get :: "'a list \<Rightarrow> jsnum \<Rightarrow> 'a option" where
  "array_get xs i =
     (case i of
        Num r \<Rightarrow>
          if r = of_int \<lfloor>r\<rfloor> \<and> 0 \<le> r \<and> r < real (length xs) then Some (xs ! nat \<lfloor>r\<rfloor>) else None
      | _ \<Rightarrow> None)"

definition confidence :: "jsnum \<Rightarrow> jsnum" where
  "confidence s =
     (let c = num_div (Num 1) (num_add (Num 1) (num_exp (num_mul (num_neg s) (Num 2))))
      in num_max (lit 0.2) (num_min (lit 0.98) c))"

section \<open>The preview helpers of the page\<close>

text \<open>
  The page holds its own copies of \<^verbatim>\<open>computeGrayscale\<close> (over a
  \<^verbatim>\<open>Uint8ClampedArray\<close>, with \<^verbatim>\<open>g += 1\<close> for \<^verbatim>\<open>g++\<close>) and of \<^verbatim>\<open>sobelEdges\<close>. They
  are translated on their own, with the suffix \<open>_client\<close>.
\<close>

definition luma_client :: "jsnum \<Rightarrow> jsnum \<Rightarrow> jsnum \<Rightarrow> jsnum" where
  "luma_client r b gch =
     num_div (num_add (num_add (num_mul (lit 0.299) r) (num_mul (lit 0.587) b))
                      (num_mul (lit 0.114) gch))
             (Num 255)"

function grayscale_loop_client :: "u8 list \<Rightarrow> nat \<Rightarrow> nat \<Rightarrow> jsnum list \<Rightarrow> jsnum list" where
  "grayscale_loop_client data i g gray =
     (if i < length data
      then grayscale_loop_client data (i + 4) (g + 1)
             (typed_set gray g
                (to_f32 (luma_client (u8_get data i) (u8_get data (i + 1)) (u8_get data (i + 2)))))
      else gray)"
  by pat_completeness auto
termination
  by (relation "measure (\<lambda>(data, i, g, gray). length data - i)") auto

declare grayscale_loop_client.simps [simp del]

definition computeGrayscale_client :: "u8 list \<Rightarrow> jsnum list" where
  "computeGrayscale_client data =
     grayscale_loop_client data 0 0 (replicate (length data div 4) (Num 0))"

definition gx_client :: "jsnum list" where
  "gx_client = map Num [-1, 0, 1, -2, 0, 2, -1, 0, 1]"

definition gy_client :: "jsnum list" where
  "gy_client = map Num [-1, -2, -1, 0, 0, 0, 1, 2, 1]"

definition sobel_tap_client ::
  "jsnum list \<Rightarrow> nat \<Rightarrow> nat \<Rightarrow> nat \<Rightarrow> int \<Rightarrow> jsnum \<times> jsnum \<times> nat \<Rightarrow> int \<Rightarrow> jsnum \<times> jsnum \<times> nat" where
  "sobel_tap_client gray width x y ky acc kx =
     (case acc of (sx, sy, k) \<Rightarrow>
        let ix = int x + kx;
            iy = int y + ky;
            idx = iy * int width + ix;
            val = f32_get gray idx
        in (num_add sx (num_mul (gx_client ! k) val),
            num_add sy (num_mul (gy_client ! k) val), k + 1))"

definition sobel_mag_client :: "jsnum list \<Rightarrow> nat \<Rightarrow> nat \<Rightarrow> nat \<Rightarrow> jsnum" where
  "sobel_mag_client gray width x y =
     (case foldl (\<lambda>acc ky. foldl (sobel_tap_client gray width x y ky) acc [-1, 0, 1])
                 (Num 0, Num 0, 0) [-1, 0, 1] of
        (sx, sy, k) \<Rightarrow>
          num_min (Num 255) (num_mul (num_sqrt (num_add (num_mul sx sx) (num_mul sy sy))) (Num 255)))"

definition sobel_row_client :: "jsnum list \<Rightarrow> nat \<Rightarrow> nat \<Rightarrow> u8 list \<Rightarrow> u8 list" where
  "sobel_row_client gray width y out =
     foldl (\<lambda>out x. typed_set out (y * width + x)
                      (ToUint8Clamp (sobel_mag_client gray width x y)))
           out [1..<width - 1]"

definition sobelEdges_client :: "jsnum list \<Rightarrow> nat \<Rightarrow> nat \<Rightarrow> u8 list" where
  "sobelEdges_client gray width height =
     foldl (\<lambda>out y. sobel_row_client gray width y out) (replicate (width * height) 0)
           [1..<height - 1]"

section \<open>Rounding: results\<close>

lemma round_half_even_of_int [simp]: "round_half_even (of_int n) = n"
  by (simp add: round_half_even_def)

lemma round_half_even_unique:
  assumes "of_int N - 1 / 2 < t" "t < of_int N + 1 / 2"
  shows "round_half_even t = N"
proof -
  have "\<lfloor>t\<rfloor> = N \<or> \<lfloor>t\<rfloor> = N - 1" using assms by linarith
  then show ?thesis
  proof
    assume f: "\<lfloor>t\<rfloor> = N"
    then show ?thesis using assms by (simp add: round_half_even_def)
  next
    assume f: "\<lfloor>t\<rfloor> = N - 1"
    then show ?thesis using assms by (simp add: round_half_even_def)
  qed
qed

lemma round_half_even_cases: "round_half_even t = \<lfloor>t\<rfloor> \<or> round_half_even t = \<lfloor>t\<rfloor> + 1"
  by (simp add: round_half_even_def Let_def)

lemma round_half_even_abs_le:
  assumes "\<bar>t\<bar> \<le> of_int n"
  shows "\<bar>round_half_even t\<bar> \<le> n"
proof -
  have lo: "- n \<le> \<lfloor>t\<rfloor>" using assms by (simp add: le_floor_iff abs_le_iff)
  have hi: "round_half_even t \<le> n"
  proof (cases "\<lfloor>t\<rfloor> = n")
    case True
    then have "t = of_int n" using assms of_int_floor_le [of t] by linarith
    then show ?thesis by simp
  next
    case False
    moreover have "\<lfloor>t\<rfloor> \<le> n" using assms by (simp add: floor_le_iff abs_le_iff) 
    ultimately have "\<lfloor>t\<rfloor> + 1 \<le> n" by simp
    then show ?thesis using round_half_even_cases [of t] by linarith
  qed
  from lo hi show ?thesis using round_half_even_cases [of t] by linarith
qed

lemma round_half_even_nonneg: "0 \<le> t \<Longrightarrow> 0 \<le> round_half_even t"
proof -
  assume "0 \<le> t"
  then have "0 \<le> \<lfloor>t\<rfloor>" by simp
  then show ?thesis using round_half_even_cases [of t] by linarith
qed

lemma floor_log2_eq:
  assumes "2 powi E \<le> \<bar>x\<bar>" "\<bar>x\<bar> < 2 powi (E + 1)"
  shows "\<lfloor>log 2 \<bar>x\<bar>\<rfloor> = E"
proof -
  have "(0::real) < 2 powi E" by simp
  then have pos: "0 < \<bar>x\<bar>" using assms(1) by linarith
  have "(2::real) powr real_of_int E = 2 powi E"
    by (simp add: powr_real_of_int')
  moreover have "(2::real) powr (real_of_int E + 1) = 2 powi (E + 1)"
    using powr_real_of_int' [of 2 "E + 1"] by simp
  ultimately have "2 powr real_of_int E \<le> \<bar>x\<bar> \<and> \<bar>x\<bar> < 2 powr (real_of_int E + 1)"
    using assms by simp
  then show ?thesis using floor_log_eq_powr_iff [of "\<bar>x\<bar>" 2 E] pos by simp
qed

lemma floor_log2_bounds:
  assumes "x \<noteq> 0"
  shows "2 powi \<lfloor>log 2 \<bar>x\<bar>\<rfloor> \<le> \<bar>x\<bar>" "\<bar>x\<bar> < 2 powi (\<lfloor>log 2 \<bar>x\<bar>\<rfloor> + 1)"
proof -
  have pos: "0 < \<bar>x\<bar>" using assms by simp
  have "2 powr real_of_int \<lfloor>log 2 \<bar>x\<bar>\<rfloor> \<le> \<bar>x\<bar> \<and> \<bar>x\<bar> < 2 powr (real_of_int \<lfloor>log 2 \<bar>x\<bar>\<rfloor> + 1)"
    using floor_log_eq_powr_iff [of "\<bar>x\<bar>" 2 "\<lfloor>log 2 \<bar>x\<bar>\<rfloor>"] pos by simp
  moreover have "(2::real) powr real_of_int k = 2 powi k" for k
    by (simp add: powr_real_of_int')
  moreover have "real_of_int \<lfloor>log 2 \<bar>x\<bar>\<rfloor> + 1 = real_of_int (\<lfloor>log 2 \<bar>x\<bar>\<rfloor> + 1)" by simp
  ultimately show "2 powi \<lfloor>log 2 \<bar>x\<bar>\<rfloor> \<le> \<bar>x\<bar>" "\<bar>x\<bar> < 2 powi (\<lfloor>log 2 \<bar>x\<bar>\<rfloor> + 1)"
    by metis+
qed

lemma binary_round_eval:
  assumes "2 powi E \<le> \<bar>x\<bar>" "\<bar>x\<bar> < 2 powi (E + 1)"
  shows "binary_round p emin emax x =
    (let q = 2 powi (max E emin - int p + 1);
         r = real_of_int (round_half_even (x / q)) * q
     in if 2 powi (emax + 1) \<le> \<bar>r\<bar> then signed_inf (0 < x) else Num r)"
proof -
  have "(0::real) < 2 powi E" by simp
  then have "0 < \<bar>x\<bar>" using assms(1) by linarith
  then have "x \<noteq> 0" by simp
  then show ?thesis
    by (simp add: binary_round_def floor_log2_eq [OF assms])
qed

lemma binary_round_not_NaN [simp]: "binary_round p emin emax x \<noteq> NaN"
  by (simp add: binary_round_def Let_def signed_inf_def)

lemma binary_round_exact:
  assumes m: "\<bar>m\<bar> < 2 ^ p" and j: "emin - int p + 1 \<le> j"
    and b: "\<bar>real_of_int m * 2 powi j\<bar> < 2 powi (emax + 1)"
  shows "binary_round p emin emax (real_of_int m * 2 powi j) = Num (real_of_int m * 2 powi j)"
proof (cases "m = 0")
  case True
  then show ?thesis by (simp add: binary_round_def)
next
  case False
  let ?x = "real_of_int m * 2 powi j"
  let ?E = "\<lfloor>log 2 \<bar>?x\<bar>\<rfloor>"
  have x0: "?x \<noteq> 0" using False by simp
  have "2 powi ?E \<le> \<bar>?x\<bar>" by (rule floor_log2_bounds [OF x0])
  also have "\<bar>?x\<bar> = real_of_int \<bar>m\<bar> * 2 powi j" by (simp add: abs_mult)
  also have "\<dots> < 2 ^ p * 2 powi j"
  proof -
    have "real_of_int \<bar>m\<bar> < 2 ^ p" using m by (metis of_int_less_iff of_int_numeral of_int_power)
    then show ?thesis by (simp add: mult_strict_right_mono)
  qed
  also have "\<dots> = 2 powi (int p + j)" by (simp add: power_int_add)
  finally have lt: "2 powi ?E < (2::real) powi (int p + j)" .
  have E: "?E < int p + j"
  proof (rule ccontr)
    assume "\<not> ?E < int p + j"
    then have "int p + j \<le> ?E" by simp
    then have "(2::real) powi (int p + j) \<le> 2 powi ?E" by (rule power_int_increasing) simp
    with lt show False by simp
  qed
  define e where "e = max ?E emin"
  have "e - int p + 1 \<le> j" using E j by (simp add: e_def)
  then obtain k :: nat where k: "j = (e - int p + 1) + int k"
    by (metis zle_iff_zadd)
  have q: "?x / 2 powi (e - int p + 1) = real_of_int (m * 2 ^ k)"
    by (simp add: k power_int_add)
  have r: "real_of_int (round_half_even (?x / 2 powi (e - int p + 1))) * 2 powi (e - int p + 1) = ?x"
    unfolding q round_half_even_of_int by (simp add: k power_int_add)
  show ?thesis
    using x0 b by (simp add: binary_round_def Let_def e_def [symmetric] r not_le del: of_int_mult)
qed

lemma binary_round_eval_normal:
  assumes x: "2 powi E \<le> \<bar>x\<bar>" "\<bar>x\<bar> < 2 powi (E + 1)" and E: "emin \<le> E" "E < emax"
  shows "binary_round p emin emax x =
    Num (real_of_int (round_half_even (x / 2 powi (E - int p + 1))) * 2 powi (E - int p + 1))"
proof -
  let ?q = "(2::real) powi (E - int p + 1)"
  let ?r = "real_of_int (round_half_even (x / ?q)) * ?q"
  have q: "0 < ?q" by simp
  have "\<bar>x / ?q\<bar> < 2 powi (E + 1) / ?q"
    using x(2) q by (simp add: divide_strict_right_mono)
  also have "2 powi (E + 1) / ?q = (2::real) powi (int p)"
    by (simp add: power_int_diff [symmetric])
  also have "\<dots> = real_of_int (2 ^ p)" by simp
  finally have "\<bar>x / ?q\<bar> \<le> real_of_int (2 ^ p)" by simp
  then have "\<bar>round_half_even (x / ?q)\<bar> \<le> 2 ^ p" by (rule round_half_even_abs_le)
  then have "real_of_int \<bar>round_half_even (x / ?q)\<bar> \<le> real_of_int (2 ^ p)" by (simp only: of_int_le_iff)
  then have "\<bar>?r\<bar> \<le> 2 ^ p * ?q" using q by (simp add: abs_mult)
  also have "2 ^ p * ?q = 2 powi (E + 1)"
    using power_int_add [of "2::real" "int p" "E - int p + 1"] by simp
  also have "\<dots> < 2 powi (emax + 1)" using E(2) by (intro power_int_strict_increasing) simp_all
  finally have "\<not> 2 powi (emax + 1) \<le> \<bar>?r\<bar>" by simp
  moreover have "max E emin = E" using E(1) by simp
  ultimately show ?thesis
    by (simp add: binary_round_eval [OF x] Let_def)
qed

lemma d64_eval:
  assumes "2 powi E \<le> \<bar>x\<bar>" "\<bar>x\<bar> < 2 powi (E + 1)" "- 1022 \<le> E" "E \<le> 1022"
  shows "d64 x = Num (real_of_int (round_half_even (x / 2 powi (E - 52))) * 2 powi (E - 52))"
  using binary_round_eval_normal [of E x "- 1022" 1023 53] assms by (simp add: d64_def)

lemma f32_eval:
  assumes "2 powi E \<le> \<bar>x\<bar>" "\<bar>x\<bar> < 2 powi (E + 1)" "- 126 \<le> E" "E \<le> 126"
  shows "f32 x = Num (real_of_int (round_half_even (x / 2 powi (E - 23))) * 2 powi (E - 23))"
  using binary_round_eval_normal [of E x "- 126" 127 24] assms by (simp add: f32_def)

lemma d64_exact:
  assumes "\<bar>m\<bar> < 2 ^ 53" "- 1074 \<le> j" "\<bar>real_of_int m * 2 powi j\<bar> < 2 powi 1024"
  shows "d64 (real_of_int m * 2 powi j) = Num (real_of_int m * 2 powi j)"
  unfolding d64_def using assms by (intro binary_round_exact) simp_all

lemma d64_zero [simp]: "d64 0 = Num 0"
  by (simp add: d64_def binary_round_def)

lemma d64_not_NaN [simp]: "d64 x \<noteq> NaN"
  by (simp add: d64_def)

lemma f32_zero [simp]: "f32 0 = Num 0"
  by (simp add: f32_def binary_round_def)

lemma d64_of_int:
  assumes "\<bar>m\<bar> < 2 ^ 53"
  shows "d64 (real_of_int m) = Num (real_of_int m)"
proof -
  have "real_of_int \<bar>m\<bar> < real_of_int (2 ^ 53)" using assms by (simp only: of_int_less_iff)
  also have "\<dots> < 2 powi 1024" by simp
  finally have "\<bar>real_of_int m * 2 powi 0\<bar> < 2 powi 1024" by simp
  then show ?thesis using d64_exact [of m 0] assms by simp
qed

text \<open>
  The correctly rounded square root, from bounds on the argument: \<open>E\<close> is the binary
  exponent of the root and \<open>N\<close> its significand as an integer.
\<close>

lemma d64_sqrt_eval:
  assumes E: "- 1022 \<le> E" "E \<le> 1022" and N: "0 < N"
    and lo: "(2 powi E)\<^sup>2 \<le> W" and hi: "W < (2 powi (E + 1))\<^sup>2"
    and n1: "((real_of_int N - 1 / 2) * 2 powi (E - 52))\<^sup>2 < W"
    and n2: "W < ((real_of_int N + 1 / 2) * 2 powi (E - 52))\<^sup>2"
  shows "d64 (sqrt W) = Num (real_of_int N * 2 powi (E - 52))"
proof -
  let ?q = "(2::real) powi (E - 52)"
  have q: "0 < ?q" by simp
  have a: "2 powi E \<le> \<bar>sqrt W\<bar>"
    using real_le_rsqrt [OF lo] by simp
  have "sqrt W < 2 powi (E + 1)"
    by (rule real_less_lsqrt [OF _ hi]) simp
  moreover have "0 \<le> ((2::real) powi E)\<^sup>2" by simp
  then have "0 \<le> W" using lo by linarith
  then have "0 \<le> sqrt W" by simp
  ultimately have b: "\<bar>sqrt W\<bar> < 2 powi (E + 1)" by simp
  have "(real_of_int N - 1 / 2) * ?q < sqrt W" by (rule real_less_rsqrt [OF n1])
  then have c: "real_of_int N - 1 / 2 < sqrt W / ?q" using q by (simp add: pos_less_divide_eq)
  have "sqrt W < (real_of_int N + 1 / 2) * ?q"
  proof (rule real_less_lsqrt [OF _ n2])
    show "0 \<le> (real_of_int N + 1 / 2) * ?q" using N by simp
  qed
  then have d: "sqrt W / ?q < real_of_int N + 1 / 2" using q by (simp add: pos_divide_less_eq)
  have "round_half_even (sqrt W / ?q) = N" by (rule round_half_even_unique [OF c d])
  then show ?thesis using d64_eval [OF a b E] by simp
qed

section \<open>Grayscale conversion: results\<close>

lemma length_typed_set [simp]: "length (typed_set xs i v) = length xs"
  by (simp add: typed_set_def)

lemma length_grayscale_loop: "length (grayscale_loop data i g gray) = length gray"
  by (induction data i g gray rule: grayscale_loop.induct) (subst grayscale_loop.simps, simp)

text \<open>The loop leaves the samples before \<open>g\<close> as they are.\<close>

lemma grayscale_loop_before: "k < g \<Longrightarrow> grayscale_loop data i g gray ! k = gray ! k"
proof (induction data i g gray rule: grayscale_loop.induct)
  case (1 data i g gray)
  let ?gray' = "typed_set gray g
      (to_f32 (luma (u8_get data i) (u8_get data (i + 1)) (u8_get data (i + 2))))"
  show ?case
  proof (cases "i < length data")
    case True
    have "grayscale_loop data i g gray ! k = grayscale_loop data (i + 4) (g + 1) ?gray' ! k"
      by (subst grayscale_loop.simps) (simp add: True)
    also have "\<dots> = ?gray' ! k"
      using "1.IH" [OF True] "1.prems" by simp
    also have "\<dots> = gray ! k"
      using "1.prems" by (simp add: typed_set_def)
    finally show ?thesis .
  next
    case False
    then show ?thesis by (subst grayscale_loop.simps) simp
  qed
qed

text \<open>Sample \<open>k \<ge> g\<close> is written by the iteration that is \<open>k - g\<close> steps ahead.\<close>

lemma grayscale_loop_at:
  "g \<le> k \<Longrightarrow> k < length gray \<Longrightarrow> i + 4 * (k - g) < length data \<Longrightarrow>
   grayscale_loop data i g gray ! k =
     to_f32 (luma (u8_get data (i + 4 * (k - g))) (u8_get data (i + 4 * (k - g) + 1))
                  (u8_get data (i + 4 * (k - g) + 2)))"
proof (induction data i g gray rule: grayscale_loop.induct)
  case (1 data i g gray)
  let ?gray' = "typed_set gray g
      (to_f32 (luma (u8_get data i) (u8_get data (i + 1)) (u8_get data (i + 2))))"
  from "1.prems" have lt: "i < length data" by simp
  have step: "grayscale_loop data i g gray = grayscale_loop data (i + 4) (g + 1) ?gray'"
    by (subst grayscale_loop.simps) (simp add: lt)
  show ?case
  proof (cases "k = g")
    case True
    have "grayscale_loop data i g gray ! k = ?gray' ! k"
      unfolding step using True by (simp add: grayscale_loop_before)
    then show ?thesis using True "1.prems" by (simp add: typed_set_def)
  next
    case False
    with "1.prems" have a: "g + 1 \<le> k" "k < length ?gray'"
      and b: "i + 4 + 4 * (k - (g + 1)) < length data"
      and c: "i + 4 + 4 * (k - (g + 1)) = i + 4 * (k - g)" by auto
    show ?thesis unfolding step using "1.IH" [OF lt a b] by (simp only: c)
  qed
qed

lemma computeGrayscale_nth:
  assumes "length data = 4 * n" "g < n"
  shows "computeGrayscale data ! g =
      to_f32 (num_div (num_add (num_add (num_mul (lit 0.299) (Num (real (unat (data ! (4 * g))))))
                                          (num_mul (lit 0.587) (Num (real (unat (data ! (4 * g + 1)))))))
                                 (num_mul (lit 0.114) (Num (real (unat (data ! (4 * g + 2)))))))
                        (Num 255))"
proof -
  have "computeGrayscale data ! g =
      to_f32 (luma (u8_get data (4 * g)) (u8_get data (4 * g + 1)) (u8_get data (4 * g + 2)))"
    unfolding computeGrayscale_def
    using grayscale_loop_at [of 0 g "replicate (length data div 4) (Num 0)" 0 data] assms
    by simp
  also have "\<dots> =
      to_f32 (num_div (num_add (num_add (num_mul (lit 0.299) (Num (real (unat (data ! (4 * g))))))
                                          (num_mul (lit 0.587) (Num (real (unat (data ! (4 * g + 1)))))))
                                 (num_mul (lit 0.114) (Num (real (unat (data ! (4 * g + 2)))))))
                        (Num 255))"
    using assms by (simp add: luma_def u8_get_def)
  finally show ?thesis .
qed

lemma length_computeGrayscale: "length (computeGrayscale data) = length data div 4"
  by (simp add: computeGrayscale_def length_grayscale_loop)

lemma computeGrayscale_pixel:
  "computeGrayscale [r, b, gb, a] = [to_f32 (luma (Num (real (unat r))) (Num (real (unat b))) (Num (real (unat gb))))]"
  by (simp add: computeGrayscale_def grayscale_loop.simps typed_set_def u8_get_def)

text \<open>
  C4 (as the code has it). For a pixel buffer of length \<open>4 * n\<close>, \<open>computeGrayscale\<close>
  returns \<open>n\<close> samples, and sample \<open>g\<close> is
  \<open>(0.299 * data[4g] + 0.587 * data[4g + 1] + 0.114 * data[4g + 2]) / 255\<close> evaluated in
  double precision (the literals, the products, the sums and the quotient each rounded
  to binary64) and then rounded to binary32 by the store into the \<^verbatim>\<open>Float32Array\<close>. The
  three weights go to the first three channels in buffer order, the fourth channel
  (alpha) occurs nowhere in the result, and the empty buffer gives the empty result.
\<close>

theorem computeGrayscale_formula:
  assumes "length data = 4 * n"
  shows "length (computeGrayscale data) = n \<and>
    (\<forall>g < n. computeGrayscale data ! g =
      to_f32 (num_div (num_add (num_add (num_mul (lit 0.299) (Num (real (unat (data ! (4 * g))))))
                                          (num_mul (lit 0.587) (Num (real (unat (data ! (4 * g + 1)))))))
                                 (num_mul (lit 0.114) (Num (real (unat (data ! (4 * g + 2)))))))
                        (Num 255))) \<and>
    computeGrayscale [] = []"
proof (intro conjI allI impI)
  show "length (computeGrayscale data) = n"
    using assms by (simp add: length_computeGrayscale)
  have "length (computeGrayscale []) = 0"
    by (simp add: length_computeGrayscale)
  then show "computeGrayscale [] = []"
    by (simp only: length_0_conv)
next
  fix g assume "g < n"
  then show "computeGrayscale data ! g =
      to_f32 (num_div (num_add (num_add (num_mul (lit 0.299) (Num (real (unat (data ! (4 * g))))))
                                          (num_mul (lit 0.587) (Num (real (unat (data ! (4 * g + 1)))))))
                                 (num_mul (lit 0.114) (Num (real (unat (data ! (4 * g + 2)))))))
                        (Num 255))"
    by (rule computeGrayscale_nth [OF assms])
qed

theorem computeGrayscale_formula_witness:
  "length [10, 20, 30, 40, 0, 255, 0, 200 :: u8] = 4 * 2 \<and>
   length (computeGrayscale [10, 20, 30, 40, 0, 255, 0, 200]) = 2 \<and>
   computeGrayscale [10, 20, 30, 40, 0, 255, 0, 200] ! 0 = Num (1194143 / 16777216) \<and>
   computeGrayscale [10, 20, 30, 40, 0, 255, 0, 200] ! 1 = Num (4924113 / 8388608)"
proof -
  have r1: "d64 (299 / 1000) = Num (5386305154335113 / 18014398509481984)"
    by (subst d64_eval [where E = "- 2"]) (simp_all add: round_half_even_def)
  have r2: "d64 (587 / 1000) = Num (2643612981266481 / 4503599627370496)"
    by (subst d64_eval [where E = "- 1"]) (simp_all add: round_half_even_def)
  have r3: "d64 (57 / 500) = Num (8214565720323785 / 72057594037927936)"
    by (subst d64_eval [where E = "- 4"]) (simp_all add: round_half_even_def)
  have r4: "d64 (26931525771675565 / 9007199254740992) = Num (6732881442918891 / 2251799813685248)"
    by (subst d64_eval [where E = 1]) (simp_all add: round_half_even_def)
  have r5: "d64 (13218064906332405 / 1125899906842624) = Num (3304516226583101 / 281474976710656)"
    by (subst d64_eval [where E = 3]) (simp_all add: round_half_even_def)
  have r6: "d64 (33169011255583699 / 2251799813685248) = Num (8292252813895925 / 562949953421312)"
    by (subst d64_eval [where E = 3]) (simp_all add: round_half_even_def)
  have r7: "d64 (123218485804856775 / 36028797018963968) = Num (1925288840700887 / 562949953421312)"
    by (subst d64_eval [where E = 1]) (simp_all add: round_half_even_def)
  have r8: "d64 (2554385413649203 / 140737488355328) = Num (2554385413649203 / 140737488355328)"
    by (subst d64_eval [where E = 4]) (simp_all add: round_half_even_def)
  have r9: "d64 (2554385413649203 / 35888059530608640) = Num (641100652837447 / 9007199254740992)"
    by (subst d64_eval [where E = "- 4"]) (simp_all add: round_half_even_def)
  have r10: "f32 (641100652837447 / 9007199254740992) = Num (1194143 / 16777216)"
    by (subst f32_eval [where E = "- 4"]) (simp_all add: round_half_even_def)
  have r11: "d64 (674121310222952655 / 4503599627370496) = Num (2633286368058409 / 17592186044416)"
    by (subst d64_eval [where E = 7]) (simp_all add: round_half_even_def)
  have r12: "d64 (2633286368058409 / 17592186044416) = Num (2633286368058409 / 17592186044416)"
    by (subst d64_eval [where E = 7]) (simp_all add: round_half_even_def)
  have r13: "d64 (2633286368058409 / 4486007441326080) = Num (2643612981266481 / 4503599627370496)"
    by (subst d64_eval [where E = "- 1"]) (simp_all add: round_half_even_def)
  have r14: "f32 (2643612981266481 / 4503599627370496) = Num (4924113 / 8388608)"
    by (subst f32_eval [where E = "- 1"]) (simp_all add: round_half_even_def)
  show ?thesis
    using computeGrayscale_formula [of "[10, 20, 30, 40, 0, 255, 0, 200]" 2]
    by (simp add: lit_def r1 r2 r3 r4 r5 r6 r7 r8 r9 r10 r11 r12 r13 r14)
qed

text \<open>
  C4 as stated fails at the pixel \<open>(255, 0, 0)\<close>: the stored sample is
  \<open>10032775 / 2\<^sup>2\<^sup>5 = 0.29899999499320984\<close>, not \<open>(0.299 * 255) / 255 = 0.299\<close>.
\<close>

theorem computeGrayscale_rounds:
  "computeGrayscale [255, 0, 0, 7] ! 0 = Num (10032775 / 33554432) \<and>
   computeGrayscale [255, 0, 0, 7] ! 0 \<noteq> Num (luma_exact 255 0 0)"
proof -
  have r1: "d64 (299 / 1000) = Num (5386305154335113 / 18014398509481984)"
    by (subst d64_eval [where E = "- 2"]) (simp_all add: round_half_even_def)
  have r2: "d64 (587 / 1000) = Num (2643612981266481 / 4503599627370496)"
    by (subst d64_eval [where E = "- 1"]) (simp_all add: round_half_even_def)
  have r3: "d64 (57 / 500) = Num (8214565720323785 / 72057594037927936)"
    by (subst d64_eval [where E = "- 4"]) (simp_all add: round_half_even_def)
  have r4: "d64 (1373507814355453815 / 18014398509481984) = Num (5365264899825991 / 70368744177664)"
    by (subst d64_eval [where E = 6]) (simp_all add: round_half_even_def)
  have r5: "d64 (5365264899825991 / 70368744177664) = Num (5365264899825991 / 70368744177664)"
    by (subst d64_eval [where E = 6]) (simp_all add: round_half_even_def)
  have r6: "d64 (315603817636823 / 1055531162664960) = Num (5386305154335113 / 18014398509481984)"
    by (subst d64_eval [where E = "- 2"]) (simp_all add: round_half_even_def)
  have r7: "f32 (5386305154335113 / 18014398509481984) = Num (10032775 / 33554432)"
    by (subst f32_eval [where E = "- 2"]) (simp_all add: round_half_even_def)
  have "computeGrayscale [255, 0, 0, 7] ! 0 = Num (10032775 / 33554432)"
    by (simp add: computeGrayscale_pixel luma_def lit_def r1 r2 r3 r4 r5 r6 r7)
  then show ?thesis by (simp add: luma_exact_def)
qed

section \<open>Edge detection: results\<close>

lemma foldl_typed_set_length [simp]:
  "length (foldl (\<lambda>out x. typed_set out (b + x) (f x)) out xs) = length out"
  by (induction xs arbitrary: out) simp_all

lemma typed_set_nth:
  "i < length xs \<Longrightarrow> typed_set xs j v ! i = (if i = j then v else xs ! i)"
  by (simp add: typed_set_def)

lemma foldl_typed_set_nth:
  "i < length out \<Longrightarrow>
   foldl (\<lambda>out x. typed_set out (b + x) (f x)) out xs ! i =
     (if b \<le> i \<and> i - b \<in> set xs then f (i - b) else out ! i)"
proof (induction xs arbitrary: out rule: rev_induct)
  case Nil
  then show ?case by simp
next
  case (snoc a xs)
  then show ?case
    by (auto simp: typed_set_nth)
qed

lemma length_sobel_row [simp]: "length (sobel_row gray width y out) = length out"
  by (simp add: sobel_row_def)

lemma sobel_row_nth:
  "i < length out \<Longrightarrow>
   sobel_row gray width y out ! i =
     (if y * width \<le> i \<and> 1 \<le> i - y * width \<and> i - y * width < width - 1
      then ToUint8Clamp (sobel_mag gray width (i - y * width) y) else out ! i)"
  unfolding sobel_row_def by (subst foldl_typed_set_nth) auto

lemma row_of_index:
  fixes i y width :: nat
  shows "y * width \<le> i \<and> 1 \<le> i - y * width \<and> i - y * width < width - 1 \<longleftrightarrow>
   i div width = y \<and> 1 \<le> i mod width \<and> i mod width < width - 1" (is "?L \<longleftrightarrow> ?R")
proof
  assume l: ?L
  then obtain x where i: "i = y * width + x" and x: "1 \<le> x" "x < width - 1"
    by (metis le_add_diff_inverse)
  from x have "x < width" by simp
  with i x show ?R by simp
next
  assume r: ?R
  have "i = i div width * width + i mod width" by simp
  with r have i: "i = y * width + i mod width" by simp
  from r show ?L by (subst (1 2 3) i) simp
qed

lemma length_sobel_rows [simp]:
  "length (foldl (\<lambda>out y. sobel_row gray width y out) out ys) = length out"
  by (induction ys arbitrary: out) simp_all

lemma sobel_rows_nth:
  "i < length out \<Longrightarrow>
   foldl (\<lambda>out y. sobel_row gray width y out) out ys ! i =
     (if i div width \<in> set ys \<and> 1 \<le> i mod width \<and> i mod width < width - 1
      then ToUint8Clamp (sobel_mag gray width (i mod width) (i div width)) else out ! i)"
proof (induction ys arbitrary: out rule: rev_induct)
  case Nil
  then show ?case by simp
next
  case (snoc y ys)
  show ?case
  proof (cases "y * width \<le> i \<and> 1 \<le> i - y * width \<and> i - y * width < width - 1")
    case True
    then have r: "i div width = y \<and> 1 \<le> i mod width \<and> i mod width < width - 1"
      using row_of_index [of y width i] by blast
    then have "i - y * width = i mod width"
      by (metis add_diff_cancel_left' div_mult_mod_eq)
    with True r snoc.prems show ?thesis by (simp add: sobel_row_nth)
  next
    case False
    then have nr: "\<not> (i div width = y \<and> 1 \<le> i mod width \<and> i mod width < width - 1)"
      using row_of_index [of y width i] by blast
    have "foldl (\<lambda>out y. sobel_row gray width y out) out (ys @ [y]) ! i =
        foldl (\<lambda>out y. sobel_row gray width y out) out ys ! i"
      using False snoc.prems by (auto simp: sobel_row_nth)
    also have "\<dots> = (if i div width \<in> set ys \<and> 1 \<le> i mod width \<and> i mod width < width - 1
      then ToUint8Clamp (sobel_mag gray width (i mod width) (i div width)) else out ! i)"
      using snoc.IH [OF snoc.prems] .
    finally show ?thesis using nr by auto
  qed
qed

lemma length_sobelEdges: "length (sobelEdges gray width height) = width * height"
  by (simp add: sobelEdges_def)

lemma sobelEdges_nth:
  "i < width * height \<Longrightarrow>
   sobelEdges gray width height ! i =
     (if 1 \<le> i div width \<and> i div width < height - 1 \<and> 1 \<le> i mod width \<and> i mod width < width - 1
      then ToUint8Clamp (sobel_mag gray width (i mod width) (i div width)) else 0)"
  unfolding sobelEdges_def by (subst sobel_rows_nth) auto


lemma pixel_index_less:
  fixes a b width height :: nat
  assumes "a < height" "b < width"
  shows "a * width + b < width * height"
proof -
  have "a * width + b < a * width + width" using assms by simp
  also have "\<dots> = (a + 1) * width" by simp
  also have "\<dots> \<le> height * width" using assms by (intro mult_le_mono1) simp
  finally show ?thesis by (simp add: mult.commute)
qed

lemma f32_get_at:
  assumes "a * width + b < length gray" and "i = int a * int width + int b"
  shows "f32_get gray i = gray ! (a * width + b)"
proof -
  have "i = int (a * width + b)" using assms(2) by simp
  then show ?thesis using assms(1) by (simp add: f32_get_def del: of_nat_add of_nat_mult)
qed

text \<open>
  At an interior pixel of a buffer of \<open>width * height\<close> samples the nine reads are in
  range, and the two inner loops accumulate the two kernel responses.
\<close>

lemma sobel_taps:
  assumes len: "length gray = width * height"
    and x: "1 \<le> x" "x + 1 < width" and y: "1 \<le> y" "y + 1 < height"
  shows "foldl (\<lambda>acc ky. foldl (sobel_tap gray width x y ky) acc [-1, 0, 1])
               (Num 0, Num 0, 0) [-1, 0, 1] =
         (kernel_acc gx gray width x y, kernel_acc gy gray width x y, 9)"
proof -
  obtain x' y' where xy: "x = Suc x'" "y = Suc y'"
    using x y by (metis Suc_le_D One_nat_def)
  have b: "a < Suc (Suc (Suc y')) \<Longrightarrow> b < Suc (Suc (Suc x')) \<Longrightarrow> a * width + b < length gray" for a b
    using pixel_index_less [of a height b width] x y len xy by simp
  have t: "f32_get gray i = gray ! (a * width + b)"
    if "a < Suc (Suc (Suc y'))" "b < Suc (Suc (Suc x'))" "i = int a * int width + int b" for a b i
    using f32_get_at [OF b [OF that(1,2)] that(3)] .
  have t00: "f32_get gray ((int y + - 1) * int width + (int x + - 1)) = gray ! (y' * width + x')"
    by (rule t [of "y'" "x'"]) (simp_all add: xy)
  have t01: "f32_get gray ((int y + - 1) * int width + (int x + 0)) = gray ! (y' * width + Suc x')"
    by (rule t [of "y'" "Suc x'"]) (simp_all add: xy)
  have t02: "f32_get gray ((int y + - 1) * int width + (int x + 1)) = gray ! (y' * width + Suc (Suc x'))"
    by (rule t [of "y'" "Suc (Suc x')"]) (simp_all add: xy)
  have t10: "f32_get gray ((int y + 0) * int width + (int x + - 1)) = gray ! (Suc y' * width + x')"
    by (rule t [of "Suc y'" "x'"]) (simp_all add: xy)
  have t11: "f32_get gray ((int y + 0) * int width + (int x + 0)) = gray ! (Suc y' * width + Suc x')"
    by (rule t [of "Suc y'" "Suc x'"]) (simp_all add: xy)
  have t12: "f32_get gray ((int y + 0) * int width + (int x + 1)) = gray ! (Suc y' * width + Suc (Suc x'))"
    by (rule t [of "Suc y'" "Suc (Suc x')"]) (simp_all add: xy)
  have t20: "f32_get gray ((int y + 1) * int width + (int x + - 1)) = gray ! (Suc (Suc y') * width + x')"
    by (rule t [of "Suc (Suc y')" "x'"]) (simp_all add: xy)
  have t21: "f32_get gray ((int y + 1) * int width + (int x + 0)) = gray ! (Suc (Suc y') * width + Suc x')"
    by (rule t [of "Suc (Suc y')" "Suc x'"]) (simp_all add: xy)
  have t22: "f32_get gray ((int y + 1) * int width + (int x + 1)) = gray ! (Suc (Suc y') * width + Suc (Suc x'))"
    by (rule t [of "Suc (Suc y')" "Suc (Suc x')"]) (simp_all add: xy)
  have k: "kernel_acc ker gray width x y =
      num_add (num_add (num_add (num_add (num_add (num_add (num_add (num_add (num_add (Num 0)
        (num_mul (ker ! 0) (gray ! (y' * width + x'))))
        (num_mul (ker ! 1) (gray ! (y' * width + Suc x'))))
        (num_mul (ker ! 2) (gray ! (y' * width + Suc (Suc x')))))
        (num_mul (ker ! 3) (gray ! (Suc y' * width + x'))))
        (num_mul (ker ! 4) (gray ! (Suc y' * width + Suc x'))))
        (num_mul (ker ! 5) (gray ! (Suc y' * width + Suc (Suc x')))))
        (num_mul (ker ! 6) (gray ! (Suc (Suc y') * width + x'))))
        (num_mul (ker ! 7) (gray ! (Suc (Suc y') * width + Suc x'))))
        (num_mul (ker ! 8) (gray ! (Suc (Suc y') * width + Suc (Suc x'))))" for ker
    unfolding kernel_acc_def xy by simp
  show ?thesis
    unfolding k
    apply (simp only: foldl_Cons foldl_Nil sobel_tap_def Let_def prod.case t00 t01 t02 t10 t11 t12 t20 t21 t22)
    apply (simp add: gx_def gy_def)
    done
qed

lemma sobel_mag_eq:
  assumes "length gray = width * height" "1 \<le> x" "x + 1 < width" "1 \<le> y" "y + 1 < height"
  shows "sobel_mag gray width x y =
    num_min (Num 255)
      (num_mul (num_sqrt (num_add (num_mul (kernel_acc gx gray width x y) (kernel_acc gx gray width x y))
                                  (num_mul (kernel_acc gy gray width x y) (kernel_acc gy gray width x y))))
               (Num 255))"
  unfolding sobel_mag_def sobel_taps [OF assms] by simp

lemma sobelEdges_pixel:
  assumes "length gray = width * height" "1 \<le> x" "x + 1 < width" "1 \<le> y" "y + 1 < height"
  shows "sobelEdges gray width height ! (y * width + x) =
      ToUint8Clamp
        (num_min (Num 255)
           (num_mul (num_sqrt (num_add (num_mul (kernel_acc gx gray width x y) (kernel_acc gx gray width x y))
                                       (num_mul (kernel_acc gy gray width x y) (kernel_acc gy gray width x y))))
                    (Num 255)))"
proof -
  have xy: "x < width" "y < height" "x < width - 1" "y < height - 1" using assms by simp_all
  have i: "y * width + x < width * height"
    using pixel_index_less [of y height x width] xy by simp
  have dm: "(y * width + x) div width = y" "(y * width + x) mod width = x"
    using xy by simp_all
  have "sobelEdges gray width height ! (y * width + x) = ToUint8Clamp (sobel_mag gray width x y)"
    using assms xy i dm by (simp add: sobelEdges_nth)
  then show ?thesis by (simp only: sobel_mag_eq [OF assms])
qed

lemma u8_range: "0 \<le> uint (w :: u8) \<and> uint w \<le> 255"
proof -
  have "uint w < 2 ^ LENGTH(8)" by (rule uint_bounded)
  then show ?thesis by simp
qed

lemma ToUint8Clamp_round:
  assumes "0 \<le> v" "v \<le> 255"
  shows "uint (ToUint8Clamp (Num v)) = round_half_even v"
proof -
  consider "v = 0" | "v = 255" | "0 < v" "v < 255" using assms by fastforce
  then show ?thesis
  proof cases
    case 1
    then show ?thesis by (simp add: round_half_even_def)
  next
    case 2
    then show ?thesis by (simp add: round_half_even_def)
  next
    case 3
    have f: "0 \<le> \<lfloor>v\<rfloor>" "\<lfloor>v\<rfloor> \<le> 254" using 3 by (simp_all add: floor_le_iff)
    then have r: "0 \<le> round_half_even v" "round_half_even v < 256"
      by (simp_all add: round_half_even_def Let_def)
    have "uint (word_of_int (round_half_even v) :: u8) = round_half_even v mod 2 ^ LENGTH(8)"
      by (rule uint_word_of_int)
    also have "\<dots> = round_half_even v" using r by simp
    finally show ?thesis using 3 by simp
  qed
qed


lemma binary_round_nonneg:
  assumes "0 \<le> x" "binary_round p emin emax x = Num r"
  shows "0 \<le> r"
proof (cases "x = 0")
  case True
  with assms show ?thesis by (simp add: binary_round_def)
next
  case False
  define q :: real where "q = 2 powi (max \<lfloor>log 2 \<bar>x\<bar>\<rfloor> emin - int p + 1)"
  have q: "0 < q" by (simp add: q_def)
  have "r = real_of_int (round_half_even (x / q)) * q"
    using assms(2) False by (simp add: binary_round_def Let_def q_def signed_inf_def split: if_splits)
  moreover have "0 \<le> round_half_even (x / q)"
    using assms(1) q by (intro round_half_even_nonneg) simp
  ultimately show ?thesis using q by simp
qed

lemma d64_nonneg: "0 \<le> x \<Longrightarrow> d64 x = Num r \<Longrightarrow> 0 \<le> r"
  unfolding d64_def by (rule binary_round_nonneg)

lemma d64_pos_not_NegInf: "0 \<le> x \<Longrightarrow> d64 x \<noteq> NegInf"
  by (simp add: d64_def binary_round_def Let_def signed_inf_def)

text \<open>A magnitude that is a number lies between 0 and 255.\<close>

lemma magnitude_range:
  assumes "num_min (Num 255) (num_mul (num_sqrt a) (Num 255)) = Num v"
  shows "0 \<le> v \<and> v \<le> 255"
proof (cases "num_sqrt a")
  case NaN
  with assms show ?thesis by simp
next
  case PosInf
  with assms show ?thesis by (auto simp: signed_inf_def)
next
  case NegInf
  then show ?thesis
    by (cases a) (auto simp: d64_pos_not_NegInf split: if_splits)
next
  case (Num s)
  then have s: "0 \<le> s"
    by (cases a) (auto split: if_splits dest: d64_nonneg [rotated])
  show ?thesis
  proof (cases "d64 (s * 255)")
    case NaN
    then show ?thesis by simp
  next
    case PosInf
    with assms Num show ?thesis by simp
  next
    case NegInf
    with s show ?thesis using d64_pos_not_NegInf [of "s * 255"] by simp
  next
    case (Num t)
    then have "0 \<le> t" using s d64_nonneg [of "s * 255" t] by simp
    with assms \<open>num_sqrt a = Num s\<close> Num show ?thesis by auto
  qed
qed

lemma sum_upto_9: "(\<Sum>k::nat < 9. f k) = f 0 + f 1 + f 2 + f 3 + f 4 + f 5 + f 6 + f 7 + (f 8 :: real)"
  by (simp add: eval_nat_numeral lessThan_Suc)

text \<open>
  C5. For every intensity buffer and all \<open>width, height \<ge> 3\<close>, the pixels of row 0, row
  \<open>height - 1\<close>, column 0 and column \<open>width - 1\<close> of the result of \<open>sobelEdges\<close> are 0: the
  loops store a magnitude at interior pixels only (lemma \<open>sobelEdges_nth\<close>).
\<close>

theorem sobelEdges_border:
  assumes "3 \<le> width" "3 \<le> height" "x < width" "y < height"
    and "x = 0 \<or> x = width - 1 \<or> y = 0 \<or> y = height - 1"
  shows "sobelEdges gray width height ! (y * width + x) = 0"
proof -
  have "y * width + x < width * height"
  proof -
    have "y * width + x < y * width + width" using assms by simp
    also have "\<dots> = (y + 1) * width" by simp
    also have "\<dots> \<le> height * width" using assms by (intro mult_le_mono1) simp
    finally show ?thesis by (simp add: mult.commute)
  qed
  moreover have "(y * width + x) div width = y" "(y * width + x) mod width = x"
    using assms by simp_all
  ultimately show ?thesis using assms by (auto simp: sobelEdges_nth)
qed

theorem sobelEdges_border_witness:
  "(3::nat) \<le> 3 \<and> (2::nat) < 3 \<and> (0::nat) < 3 \<and>
   sobelEdges (map Num [0, 0, 1, 0, 0, 1, 0, 0, 1]) 3 3 ! (0 * 3 + 2) = 0"
  using sobelEdges_border [of 3 3 2 0 "map Num [0, 0, 1, 0, 0, 1, 0, 0, 1]"]
  by simp


text \<open>
  C6 (as the code has it). For every buffer of \<open>width * height\<close> samples with
  \<open>width, height \<ge> 3\<close> and every interior pixel \<open>(x, y)\<close>, the byte stored by \<open>sobelEdges\<close>
  is \<open>min(255, sqrt (sx * sx + sy * sy) * 255)\<close> converted by ToUint8Clamp, where \<open>sx\<close>
  and \<open>sy\<close> are the responses of the kernels \<open>gx\<close> and \<open>gy\<close> accumulated from the first
  kernel entry to the last, and every product, sum and the square root is rounded to
  binary64. Whenever that magnitude is a number \<open>v\<close>, it lies in \<open>[0, 255]\<close> and the byte
  is \<open>v\<close> rounded to the nearest integer, a tie going to the even one; and every value of
  the edge buffer is an integer between 0 and 255.
\<close>

theorem sobelEdges_interior:
  assumes "length gray = width * height" "3 \<le> width" "3 \<le> height"
    and "1 \<le> x" "x < width - 1" "1 \<le> y" "y < height - 1"
  shows "sobelEdges gray width height ! (y * width + x) =
      ToUint8Clamp
        (num_min (Num 255)
           (num_mul (num_sqrt (num_add (num_mul (kernel_acc gx gray width x y) (kernel_acc gx gray width x y))
                                       (num_mul (kernel_acc gy gray width x y) (kernel_acc gy gray width x y))))
                    (Num 255))) \<and>
    (\<forall>v. num_min (Num 255)
           (num_mul (num_sqrt (num_add (num_mul (kernel_acc gx gray width x y) (kernel_acc gx gray width x y))
                                       (num_mul (kernel_acc gy gray width x y) (kernel_acc gy gray width x y))))
                    (Num 255)) = Num v \<longrightarrow>
         0 \<le> v \<and> v \<le> 255 \<and>
         uint (sobelEdges gray width height ! (y * width + x)) = round_half_even v) \<and>
    (\<forall>i < length (sobelEdges gray width height).
       0 \<le> uint (sobelEdges gray width height ! i) \<and>
       uint (sobelEdges gray width height ! i) \<le> 255)"
proof -
  have xy: "x + 1 < width" "y + 1 < height" using assms by simp_all
  have p: "sobelEdges gray width height ! (y * width + x) =
      ToUint8Clamp
        (num_min (Num 255)
           (num_mul (num_sqrt (num_add (num_mul (kernel_acc gx gray width x y) (kernel_acc gx gray width x y))
                                       (num_mul (kernel_acc gy gray width x y) (kernel_acc gy gray width x y))))
                    (Num 255)))"
    by (rule sobelEdges_pixel [OF assms(1,4) xy(1) assms(6) xy(2)])
  show ?thesis
  proof (intro conjI allI impI)
    fix v
    assume v: "num_min (Num 255)
           (num_mul (num_sqrt (num_add (num_mul (kernel_acc gx gray width x y) (kernel_acc gx gray width x y))
                                       (num_mul (kernel_acc gy gray width x y) (kernel_acc gy gray width x y))))
                    (Num 255)) = Num v"
    then have r: "0 \<le> v \<and> v \<le> 255" by (rule magnitude_range)
    then show "0 \<le> v" "v \<le> 255" by simp_all
    from r have "uint (ToUint8Clamp (Num v)) = round_half_even v"
      by (intro ToUint8Clamp_round) simp_all
    then show "uint (sobelEdges gray width height ! (y * width + x)) = round_half_even v"
      by (simp only: p v)
  qed (use p u8_range in simp_all)
qed

theorem sobelEdges_interior_witness:
  "length (map Num [0, 0, 1 / 8, 0, 0, 1 / 8, 0, 0, 1 / 8]) = 3 * 3 \<and>
   sobelEdges (map Num [0, 0, 1 / 8, 0, 0, 1 / 8, 0, 0, 1 / 8]) 3 3 ! (1 * 3 + 1) = 128"
proof -
  let ?gray = "map Num [0, 0, 1 / 8, 0, 0, 1 / 8, 0, 0, 1 / 8]"
  have r1: "d64 (1 / 8) = Num (1 / 8)"
    by (subst d64_eval [where E = "- 3"]) (simp_all add: round_half_even_def)
  have r2: "d64 (1 / 4) = Num (1 / 4)"
    by (subst d64_eval [where E = "- 2"]) (simp_all add: round_half_even_def)
  have r3: "d64 (3 / 8) = Num (3 / 8)"
    by (subst d64_eval [where E = "- 2"]) (simp_all add: round_half_even_def)
  have r4: "d64 (1 / 2) = Num (1 / 2)"
    by (subst d64_eval [where E = "- 1"]) (simp_all add: round_half_even_def)
  have r5: "d64 (- (1 / 8)) = Num (- (1 / 8))"
    by (subst d64_eval [where E = "- 3"]) (simp_all add: round_half_even_def)
  have r6: "d64 (255 / 2) = Num (255 / 2)"
    by (subst d64_eval [where E = 6]) (simp_all add: round_half_even_def)
  have sx: "kernel_acc gx ?gray 3 1 1 = Num (1 / 2)"
    by (simp add: kernel_acc_def gx_def r1 r2 r3 r4 r5 r6)
  have sy: "kernel_acc gy ?gray 3 1 1 = Num 0"
    by (simp add: kernel_acc_def gy_def r1 r2 r3 r4 r5 r6)
  have q: "sqrt (1 / 4) = 1 / 2"
    using real_sqrt_abs [of "1 / 2"] by (simp add: power2_eq_square)
  have m: "num_min (Num 255) (num_mul (num_sqrt (num_add (num_mul (Num (1 / 2)) (Num (1 / 2)))
      (num_mul (Num 0) (Num 0)))) (Num 255)) = Num (255 / 2)"
    by (simp add: q r1 r2 r3 r4 r5 r6)
  have c: "ToUint8Clamp (Num (255 / 2)) = 128"
    by (simp add: round_half_even_def)
  show ?thesis
    using sobelEdges_interior [of ?gray 3 3 1 1] unfolding sx sy m c by simp
qed

text \<open>
  C6 as stated fails at the interior pixel of a 3\<times>3 buffer of binary32 samples in
  \<open>[0, 1]\<close>: the exact value of \<open>min(255, 255 * sqrt (sx\<^sup>2 + sy\<^sup>2))\<close> is
  \<open>129.5 - 2\<^sup>-\<^sup>4\<^sup>7\<close>, which truncates and rounds to 129, while the product in binary64
  is exactly 129.5 and the stored byte is 130.
\<close>

theorem sobelEdges_rounding_differs:
  "sobelEdges (map Num [0, 0, 4260097 / 8388608, 0, 0, 65793 / 281474976710656, 0, 4260097 / 16777216, 0]) 3 3 ! (1 * 3 + 1) = 130 \<and>
   \<lfloor>min 255 (255 * sqrt ((kernel_response Gx [0, 0, 4260097 / 8388608, 0, 0, 65793 / 281474976710656, 0, 4260097 / 16777216, 0] 3 1 1)\<^sup>2
                         + (kernel_response Gy [0, 0, 4260097 / 8388608, 0, 0, 65793 / 281474976710656, 0, 4260097 / 16777216, 0] 3 1 1)\<^sup>2))\<rfloor> = 129 \<and>
   round_half_even (min 255 (255 * sqrt ((kernel_response Gx [0, 0, 4260097 / 8388608, 0, 0, 65793 / 281474976710656, 0, 4260097 / 16777216, 0] 3 1 1)\<^sup>2
                         + (kernel_response Gy [0, 0, 4260097 / 8388608, 0, 0, 65793 / 281474976710656, 0, 4260097 / 16777216, 0] 3 1 1)\<^sup>2))) = 129"
proof -
  let ?rs = "[0, 0, 4260097 / 8388608, 0, 0, 65793 / 281474976710656, 0, 4260097 / 16777216, 0] :: real list"
  let ?gray = "map Num ?rs"
  have r1: "d64 (4260097 / 8388608) = Num (4260097 / 8388608)"
    by (subst d64_eval [where E = "- 1"]) (simp_all add: round_half_even_def)
  have r2: "d64 (65793 / 140737488355328) = Num (65793 / 140737488355328)"
    by (subst d64_eval [where E = "- 31"]) (simp_all add: round_half_even_def)
  have r3: "d64 (71472567615745 / 140737488355328) = Num (71472567615745 / 140737488355328)"
    by (subst d64_eval [where E = "- 1"]) (simp_all add: round_half_even_def)
  have r4: "d64 (- (4260097 / 8388608)) = Num (- (4260097 / 8388608))"
    by (subst d64_eval [where E = "- 1"]) (simp_all add: round_half_even_def)
  have r5: "d64 (5108327921587240913971905025 / 19807040628566084398385987584) = Num (2322998589801155 / 9007199254740992)"
    by (subst d64_eval [where E = "- 2"]) (simp_all add: round_half_even_def)
  have r6: "d64 (2322998589801155 / 9007199254740992) = Num (2322998589801155 / 9007199254740992)"
    by (subst d64_eval [where E = "- 2"]) (simp_all add: round_half_even_def)
  have r7: "d64 (18225504742014975 / 140737488355328) = Num (259 / 2)"
    by (subst d64_eval [where E = 7]) (simp_all add: round_half_even_def)
  have sx: "kernel_acc gx ?gray 3 1 1 = Num (71472567615745 / 140737488355328)"
    by (simp add: kernel_acc_def gx_def r1 r2 r3 r4 r5 r6 r7)
  have sy: "kernel_acc gy ?gray 3 1 1 = Num 0"
    by (simp add: kernel_acc_def gy_def r1 r2 r3 r4 r5 r6 r7)
  have q: "d64 (sqrt (2322998589801155 / 9007199254740992)) = Num (71472567615745 / 140737488355328)"
    by (subst d64_sqrt_eval [where E = "- 1" and N = 4574244327407680]) (simp_all add: power2_eq_square)
  have w: "num_add (num_mul (Num (71472567615745 / 140737488355328)) (Num (71472567615745 / 140737488355328)))
                   (num_mul (Num 0) (Num 0)) = Num (2322998589801155 / 9007199254740992)"
    by (simp add: r1 r2 r3 r4 r5 r6 r7)
  have m: "num_min (Num 255) (num_mul (num_sqrt (Num (2322998589801155 / 9007199254740992))) (Num 255)) = Num (259 / 2)"
    unfolding num_sqrt.simps by (simp add: q r1 r2 r3 r4 r5 r6 r7 del: real_sqrt_divide)
  have c: "ToUint8Clamp (Num (259 / 2)) = 130"
    by (simp add: round_half_even_def)
  have "length ?gray = 3 * 3" by simp
  then have code: "sobelEdges ?gray 3 3 ! (1 * 3 + 1) = 130"
    using sobelEdges_pixel [of ?gray 3 3 1 1] unfolding sx sy w m c by simp
  have kx: "kernel_response Gx ?rs 3 1 1 = 71472567615745 / 140737488355328"
    by (simp add: kernel_response_def sum_upto_9 Gx_def)
  have ky: "kernel_response Gy ?rs 3 1 1 = 0"
    by (simp add: kernel_response_def sum_upto_9 Gy_def)
  have "(71472567615745 / 140737488355328 :: real)\<^sup>2 + 0\<^sup>2 = (71472567615745 / 140737488355328)\<^sup>2" by simp
  then have "sqrt ((71472567615745 / 140737488355328 :: real)\<^sup>2 + 0\<^sup>2) = sqrt ((71472567615745 / 140737488355328)\<^sup>2)" by (simp only:)
  also have "\<dots> = 71472567615745 / 140737488355328" by (simp only: real_sqrt_abs)
  finally have v: "min 255 (255 * sqrt ((71472567615745 / 140737488355328 :: real)\<^sup>2 + 0\<^sup>2)) = 18225504742014975 / 140737488355328"
    by simp
  show ?thesis
    unfolding kx ky v using code by (simp add: round_half_even_def)
qed

section \<open>Feature extraction: results\<close>

lemma foldl_upt_invariant:
  assumes "P a0" and "\<And>a i. i < n \<Longrightarrow> P a \<Longrightarrow> P (F a i)" and "k \<le> n"
  shows "P (foldl F a0 [0..<k])"
  using assms(3) by (induction k) (simp_all add: assms(1,2))

lemma f32_get_replicate: "i < n \<Longrightarrow> f32_get (replicate n v) (int i) = v"
  by (simp add: f32_get_def)

text \<open>A loop whose running sum stays exact: after \<open>k\<close> steps it is \<open>k * u\<close>.\<close>

lemma foldl_upt_exact:
  assumes "\<And>k. k < n \<Longrightarrow> F (Num (real k * u)) k = Num (real (Suc k) * u)" and "m \<le> n"
  shows "foldl F (Num 0) [0..<m] = Num (real m * u)"
  using assms(2) by (induction m) (simp_all add: assms(1))

text \<open>
  Adding \<open>c\<close> to \<open>k * c\<close> is exact as long as the significand of the sum fits in 53 bits.
\<close>

lemma d64_scaled_exact:
  assumes c: "c = real_of_int m * 2 powi e" and m: "\<bar>int (Suc k) * m\<bar> < 2 ^ 53"
    and e: "- 1074 \<le> e" "e \<le> 970"
  shows "d64 (real k * c + c) = Num (real (Suc k) * c)"
proof -
  let ?M = "int (Suc k) * m"
  have eq: "real k * c + c = real_of_int ?M * 2 powi e" "real (Suc k) * c = real_of_int ?M * 2 powi e"
    by (simp_all add: c algebra_simps)
  have "real_of_int \<bar>?M\<bar> < real_of_int (2 ^ 53)" using m by (simp only: of_int_less_iff)
  then have "real_of_int \<bar>?M\<bar> < 2 powi 53" by simp
  moreover have "(2::real) powi e \<le> 2 powi 970" using e(2) by (intro power_int_increasing) simp_all
  ultimately have "real_of_int \<bar>?M\<bar> * 2 powi e < 2 powi 53 * 2 powi 970"
    by (intro mult_less_le_imp_less) simp_all
  also have "(2::real) powi 53 * 2 powi 970 = 2 powi 1023" by (simp flip: power_add)
  also have "\<dots> < 2 powi 1024" by simp
  finally have "\<bar>real_of_int ?M * 2 powi e\<bar> < 2 powi 1024" by (simp add: abs_mult)
  then have "d64 (real_of_int ?M * 2 powi e) = Num (real_of_int ?M * 2 powi e)"
    using m e(1) by (intro d64_exact) simp_all
  then show ?thesis by (simp only: eq)
qed

text \<open>The three stages of \<open>featureSignature\<close>: mean, then std, then skew.\<close>

lemma featureSignature_stages:
  assumes "num_div (foldl (\<lambda>mean i. num_add mean (f32_get gray (int i))) (Num 0) [0..<length gray])
             (Num (real (length gray))) = M"
    and "num_sqrt (num_div
             (foldl (\<lambda>variance i.
                       let d = num_sub (f32_get gray (int i)) M
                       in num_add variance (num_mul d d))
                    (Num 0) [0..<length gray])
             (Num (real (length gray)))) = S"
    and "num_div
             (foldl (\<lambda>skew i.
                       let z = num_div (num_sub (f32_get gray (int i)) M)
                                       (num_add S (lit (1 / 10 ^ 6)))
                       in num_add skew (num_mul (num_mul z z) z))
                    (Num 0) [0..<length gray])
             (Num (real (length gray))) = K"
  shows "featureSignature gray = Inr \<lparr>mean = M, std = S, skew = K\<rparr>"
  unfolding featureSignature_def Let_def
  by (simp only: assms [unfolded Let_def])

lemma featureSignature_std:
  assumes "num_div (foldl (\<lambda>mean i. num_add mean (f32_get gray (int i))) (Num 0) [0..<length gray])
             (Num (real (length gray))) = M"
    and "num_sqrt (num_div
             (foldl (\<lambda>variance i.
                       let d = num_sub (f32_get gray (int i)) M
                       in num_add variance (num_mul d d))
                    (Num 0) [0..<length gray])
             (Num (real (length gray)))) = S"
  shows "std (projr (featureSignature gray)) = S"
  using featureSignature_stages [OF assms refl] by simp

lemma lit_epsilon: "num_add (Num 0) (lit (1 / 1000000)) = Num (4722366482869645 / 4722366482869645213696)"
proof -
  have e1: "d64 (1 / 1000000) = Num (4722366482869645 / 4722366482869645213696)"
    by (subst d64_eval [where E = "- 20"]) (simp_all add: round_half_even_def)
  have e2: "d64 (4722366482869645 / 4722366482869645213696) = Num (4722366482869645 / 4722366482869645213696)"
    by (subst d64_eval [where E = "- 20"]) (simp_all add: round_half_even_def)
  show ?thesis by (simp add: lit_def e1 e2)
qed

text \<open>
  C1 (as the code has it). On a zero-length buffer \<open>featureSignature\<close> raises no error:
  the three loops do not run, \<open>0 / 0\<close> is \<open>NaN\<close>, and the function returns the feature
  vector whose mean, std and skew are all \<open>NaN\<close>.
\<close>

theorem featureSignature_empty:
  "featureSignature [] = Inr \<lparr>mean = NaN, std = NaN, skew = NaN\<rparr>"
  by (simp add: featureSignature_def)

text \<open>
  C1 as stated: the claim that the empty buffer fails with \<open>InvalidInput\<close> rather than
  producing \<open>NaN\<close> does not hold of \<open>featureSignature\<close>.
\<close>

theorem featureSignature_empty_no_error:
  "featureSignature [] \<noteq> Inl InvalidInput \<and> mean (projr (featureSignature [])) = NaN"
  by (simp add: featureSignature_def)

text \<open>
  C7 (as the code has it). On a non-empty buffer of at most \<open>2\<^sup>2\<^sup>9 + 32\<close> samples that
  all equal the same binary32 value \<open>c = m * 2\<^sup>e\<close> (\<open>|m| < 2\<^sup>2\<^sup>4\<close>, \<open>-149 \<le> e \<le> 104\<close>),
  \<open>featureSignature\<close> returns mean \<open>c\<close>, std 0 and skew 0: the running sum \<open>k * c\<close> has a
  significand below \<open>2\<^sup>5\<^sup>3\<close> and is exact, so the mean is \<open>c\<close>, every deviation is 0, and
  the z-score \<open>0 / (0 + 1e-6)\<close> is 0.
\<close>

theorem featureSignature_uniform:
  assumes c: "c = real_of_int m * 2 powi e" "\<bar>m\<bar> < 2 ^ 24" "- 149 \<le> e" "e \<le> 104"
    and n: "0 < n" "n \<le> 2 ^ 29 + 32"
  shows "featureSignature (replicate n (Num c)) = Inr \<lparr>mean = Num c, std = Num 0, skew = Num 0\<rparr>"
proof (rule featureSignature_stages)
  let ?gray = "replicate n (Num c)"
  have n0: "real n \<noteq> 0" using n by simp
  have step: "\<bar>int (Suc k) * m\<bar> < 2 ^ 53" if "k < n" for k
  proof -
    have "\<bar>int (Suc k) * m\<bar> = int (Suc k) * \<bar>m\<bar>" by (simp add: abs_mult)
    also have "\<dots> \<le> 536870944 * \<bar>m\<bar>"
      using that n(2) by (intro mult_right_mono) simp_all
    also have "\<dots> \<le> 536870944 * 16777215" using c(2) by simp
    finally show ?thesis by simp
  qed
  have "foldl (\<lambda>mean i. num_add mean (f32_get ?gray (int i))) (Num 0) [0..<n] = Num (real n * c)"
  proof (rule foldl_upt_exact [where n = n])
    fix k assume k: "k < n"
    have "d64 (real k * c + c) = Num (real (Suc k) * c)"
      using c(3,4) by (intro d64_scaled_exact [OF c(1) step [OF k]]) simp_all
    then show "num_add (Num (real k * c)) (f32_get ?gray (int k)) = Num (real (Suc k) * c)"
      using k by (simp add: f32_get_replicate)
  qed simp
  moreover have "d64 c = Num c"
  proof -
    have "\<bar>int (Suc 0) * m\<bar> < 2 ^ 53" using c(2) by simp
    then have "d64 (real 0 * c + c) = Num (real (Suc 0) * c)"
      using c(3,4) by (intro d64_scaled_exact [OF c(1)]) simp_all
    then show ?thesis by simp
  qed
  ultimately show "num_div (foldl (\<lambda>mean i. num_add mean (f32_get ?gray (int i))) (Num 0)
      [0..<length ?gray]) (Num (real (length ?gray))) = Num c"
    using n0 by simp
  have "foldl (\<lambda>variance i. let d = num_sub (f32_get ?gray (int i)) (Num c)
                              in num_add variance (num_mul d d)) (Num 0) [0..<n] = Num 0"
    by (rule foldl_upt_invariant [where n = n]) (simp_all add: f32_get_replicate num_sub_def)
  then show "num_sqrt (num_div
             (foldl (\<lambda>variance i.
                       let d = num_sub (f32_get ?gray (int i)) (Num c)
                       in num_add variance (num_mul d d))
                    (Num 0) [0..<length ?gray])
             (Num (real (length ?gray)))) = Num 0"
    using n0 by simp
  have "foldl (\<lambda>skew i. let z = num_div (num_sub (f32_get ?gray (int i)) (Num c))
                                         (num_add (Num 0) (lit (1 / 10 ^ 6)))
                          in num_add skew (num_mul (num_mul z z) z)) (Num 0) [0..<n] = Num 0"
    by (rule foldl_upt_invariant [where n = n])
       (simp_all add: f32_get_replicate num_sub_def lit_epsilon)
  then show "num_div
             (foldl (\<lambda>skew i.
                       let z = num_div (num_sub (f32_get ?gray (int i)) (Num c))
                                       (num_add (Num 0) (lit (1 / 10 ^ 6)))
                       in num_add skew (num_mul (num_mul z z) z))
                    (Num 0) [0..<length ?gray])
             (Num (real (length ?gray))) = Num 0"
    using n0 by simp
qed

theorem featureSignature_uniform_witness:
  "(13421773 / 134217728 :: real) = real_of_int 13421773 * 2 powi (- 27) \<and>
   \<bar>13421773 :: int\<bar> < 2 ^ 24 \<and> (0::nat) < 3 \<and> (3::nat) \<le> 2 ^ 29 + 32 \<and>
   featureSignature [Num (13421773 / 134217728), Num (13421773 / 134217728), Num (13421773 / 134217728)] =
     Inr \<lparr>mean = Num (13421773 / 134217728), std = Num 0, skew = Num 0\<rparr>"
  using featureSignature_uniform [of "13421773 / 134217728" 13421773 "- 27" 3]
  by (simp add: numeral_3_eq_3)

text \<open>
  C7 as stated fails on a larger buffer: with \<open>2\<^sup>2\<^sup>9 + 33\<close> samples all equal to
  \<open>1 - 2\<^sup>-\<^sup>2\<^sup>4\<close> the last addition of the running sum is rounded, the mean comes out as
  \<open>c + 2\<^sup>-\<^sup>5\<^sup>3\<close>, and the standard deviation is \<open>2\<^sup>-\<^sup>5\<^sup>3\<close>, not 0.
\<close>

theorem featureSignature_uniform_large:
  "std (projr (featureSignature (replicate 536870945 (Num (16777215 / 16777216))))) = Num (1 / 9007199254740992) \<and>
   std (projr (featureSignature (replicate 536870945 (Num (16777215 / 16777216))))) \<noteq> Num 0"
proof -
  let ?c = "16777215 / 16777216 :: real"
  let ?u = "1 / 81129638414606681695789005144064 :: real"
  let ?gray = "replicate 536870945 (Num ?c)"
  have r1: "d64 (9007199271518175 / 16777216) = Num (281474977234943 / 524288)"
    by (subst d64_eval [where E = 29]) (simp_all add: round_half_even_def)
  have r2: "d64 (281474977234943 / 281474994012160) = Num (9007198717870081 / 9007199254740992)"
    by (subst d64_eval [where E = "- 1"]) (simp_all add: round_half_even_def)
  have r3: "d64 (- (1 / 9007199254740992)) = Num (- (1 / 9007199254740992))"
    by (subst d64_eval [where E = "- 53"]) (simp_all add: round_half_even_def)
  have r4: "d64 (1 / 81129638414606681695789005144064) = Num (1 / 81129638414606681695789005144064)"
    by (subst d64_eval [where E = "- 106"]) (simp_all add: round_half_even_def)
  have r5: "d64 (1 / 9007199254740992) = Num (1 / 9007199254740992)"
    by (subst d64_eval [where E = "- 53"]) (simp_all add: round_half_even_def)
  have c: "?c = real_of_int 16777215 * 2 powi (- 24)" by simp
  have u: "?u = real_of_int 1 * 2 powi (- 106)" by simp
  have n: "(536870945::nat) = Suc 536870944" by simp
  have len: "length ?gray = 536870945" by simp
  have "foldl (\<lambda>mean i. num_add mean (f32_get ?gray (int i))) (Num 0) [0..<536870944] =
      Num (real (536870944::nat) * ?c)"
  proof (rule foldl_upt_exact [where n = 536870944])
    fix k :: nat assume k: "k < 536870944"
    then have "\<bar>int (Suc k) * 16777215\<bar> < 2 ^ 53" by simp
    then have "d64 (real k * ?c + ?c) = Num (real (Suc k) * ?c)"
      by (intro d64_scaled_exact [OF c]) simp_all
    then show "num_add (Num (real k * ?c)) (f32_get ?gray (int k)) = Num (real (Suc k) * ?c)"
      using k by (simp add: f32_get_replicate)
  qed simp
  then have "foldl (\<lambda>mean i. num_add mean (f32_get ?gray (int i))) (Num 0) [0..<536870945] =
      Num (281474977234943 / 524288)"
    unfolding n upt_Suc by (simp add: f32_get_def r1)
  then have M: "num_div (foldl (\<lambda>mean i. num_add mean (f32_get ?gray (int i))) (Num 0) [0..<length ?gray])
      (Num (real (length ?gray))) = Num (9007198717870081 / 9007199254740992)"
    unfolding len by (simp add: r2)
  have "foldl (\<lambda>variance i. let d = num_sub (f32_get ?gray (int i)) (Num (9007198717870081 / 9007199254740992))
                              in num_add variance (num_mul d d)) (Num 0) [0..<536870945] =
      Num (real (536870945::nat) * ?u)"
  proof (rule foldl_upt_exact [where n = 536870945])
    fix k :: nat assume k: "k < 536870945"
    then have "\<bar>int (Suc k) * 1\<bar> < 2 ^ 53" by simp
    then have "d64 (real k * ?u + ?u) = Num (real (Suc k) * ?u)"
      by (intro d64_scaled_exact [OF u]) simp_all
    then show "(let d = num_sub (f32_get ?gray (int k)) (Num (9007198717870081 / 9007199254740992))
         in num_add (Num (real k * ?u)) (num_mul d d)) = Num (real (Suc k) * ?u)"
      using k by (simp add: f32_get_replicate num_sub_def r3 r4)
  qed simp
  moreover have "d64 (sqrt ?u) = Num (1 / 9007199254740992)"
  proof -
    have "sqrt ((1 / 9007199254740992)\<^sup>2) = (1 / 9007199254740992 :: real)" by (simp only: real_sqrt_abs)
    moreover have "((1 / 9007199254740992)\<^sup>2 :: real) = ?u" by (simp add: power2_eq_square)
    ultimately have "sqrt ?u = 1 / 9007199254740992" by (simp only:)
    then show ?thesis by (simp only: r5)
  qed
  ultimately have S: "num_sqrt (num_div
      (foldl (\<lambda>variance i. let d = num_sub (f32_get ?gray (int i)) (Num (9007198717870081 / 9007199254740992))
                            in num_add variance (num_mul d d)) (Num 0) [0..<length ?gray])
      (Num (real (length ?gray)))) = Num (1 / 9007199254740992)"
    unfolding len by (simp add: r4 r5)
  have "std (projr (featureSignature ?gray)) = Num (1 / 9007199254740992)"
    by (rule featureSignature_std [OF M S])
  then show ?thesis by simp
qed

section \<open>Classification: results\<close>

lemma trunc_of_nat_div: "trunc (real m / real n) = real (m div n)"
proof -
  have "\<lfloor>real m / real n\<rfloor> = int (m div n)"
    by (metis floor_divide_of_nat_eq)
  then show ?thesis by (simp add: trunc_def)
qed

lemma length_VEHICLES: "length VEHICLES = 5"
  by (simp add: VEHICLES_def)

text \<open>The remainder of a natural number by 5, as \<^verbatim>\<open>%\<close> computes it.\<close>

lemma num_mod_5: "num_mod (Num (real a)) (Num 5) = Num (real (a mod 5))"
proof -
  have "real a - 5 * trunc (real a / real 5) = real a - real (5 * (a div 5))"
    by (simp only: trunc_of_nat_div)
  also have "\<dots> = real (a mod 5)"
  proof -
    have "real a = real (5 * (a div 5) + a mod 5)" by simp
    then have "real a = real (5 * (a div 5)) + real (a mod 5)" by (simp only: of_nat_add)
    then show ?thesis by linarith
  qed
  finally show ?thesis by simp
qed

lemma idx_of_sum:
  assumes "weighted_sum f = Num v"
  shows "idx f = Num (real (nat \<bar>\<lfloor>v\<rfloor>\<bar> mod 5))"
proof -
  have "\<bar>real_of_int \<lfloor>v\<rfloor>\<bar> = real (nat \<bar>\<lfloor>v\<rfloor>\<bar>)" by simp
  then have "num_abs (num_floor (Num v)) = Num (real (nat \<bar>\<lfloor>v\<rfloor>\<bar>))" by simp
  then show ?thesis
    unfolding idx_def assms length_VEHICLES using num_mod_5 [of "nat \<bar>\<lfloor>v\<rfloor>\<bar>"] by simp
qed

text \<open>
  When the weighted sum is \<open>NaN\<close> or infinite the index is \<open>NaN\<close> and the lookup yields
  \<^verbatim>\<open>undefined\<close>.
\<close>

lemma idx_of_non_number:
  assumes "\<And>v. weighted_sum f \<noteq> Num v"
  shows "idx f = NaN \<and> array_get VEHICLES (idx f) = None"
proof -
  have "idx f = NaN"
  proof (cases "weighted_sum f")
    case (Num v)
    with assms show ?thesis by blast
  qed (simp_all add: idx_def)
  then show ?thesis by (simp add: array_get_def)
qed

text \<open>
  C2 (as the code has it). For every feature vector whose weighted sum
  \<open>mean * 7 + std * 11 + skew * 13\<close>, computed in double precision, is a finite number,
  the index \<open>|floor (sum)| % K\<close>, with \<open>K = 5\<close> the length of the catalog, is an integer
  \<open>j\<close> with \<open>0 \<le> j < 5\<close>, and the lookup \<open>VEHICLES[idx]\<close> yields entry \<open>j\<close> of the catalog.
\<close>

theorem idx_in_bounds:
  assumes "weighted_sum f = Num v"
  shows "length VEHICLES = 5 \<and>
    (\<exists>j. j < 5 \<and> idx f = Num (real j) \<and> array_get VEHICLES (idx f) = Some (VEHICLES ! j))"
proof -
  let ?j = "nat \<bar>\<lfloor>v\<rfloor>\<bar> mod 5"
  have i: "idx f = Num (real ?j)" by (rule idx_of_sum [OF assms])
  have "array_get VEHICLES (Num (real ?j)) = Some (VEHICLES ! ?j)"
    by (simp add: array_get_def length_VEHICLES)
  with i show ?thesis
    by (intro conjI exI [of _ ?j]) (simp_all add: length_VEHICLES)
qed

theorem idx_in_bounds_witness:
  "weighted_sum \<lparr>mean = Num 1, std = Num 0, skew = Num 0\<rparr> = Num 7 \<and>
   length VEHICLES = 5 \<and>
   (\<exists>j. j < 5 \<and> idx \<lparr>mean = Num 1, std = Num 0, skew = Num 0\<rparr> = Num (real j) \<and>
      array_get VEHICLES (idx \<lparr>mean = Num 1, std = Num 0, skew = Num 0\<rparr>) = Some (VEHICLES ! j))"
proof -
  have w1: "d64 7 = Num 7"
    by (subst d64_eval [where E = 2]) (simp_all add: round_half_even_def)
  have s: "weighted_sum \<lparr>mean = Num 1, std = Num 0, skew = Num 0\<rparr> = Num 7"
    by (simp add: weighted_sum_def w1)
  show ?thesis
    using idx_in_bounds [OF s] s by simp
qed

text \<open>
  C2 as stated fails on the feature vector that \<open>featureSignature\<close> returns on an empty
  buffer: the index is \<open>NaN\<close> and the lookup yields \<^verbatim>\<open>undefined\<close>.
\<close>

theorem idx_NaN:
  "idx \<lparr>mean = NaN, std = NaN, skew = NaN\<rparr> = NaN \<and>
   array_get VEHICLES (idx \<lparr>mean = NaN, std = NaN, skew = NaN\<rparr>) = None"
  by (simp add: idx_def weighted_sum_def array_get_def)

text \<open>The product \<open>mean * 7\<close> overflows for \<open>mean = 2\<^sup>1\<^sup>0\<^sup>2\<^sup>3\<close>, and the index is \<open>NaN\<close>.\<close>

lemma idx_overflow:
  "idx \<lparr>mean = Num (2 ^ 1023), std = Num 0, skew = Num 0\<rparr> = NaN"
proof -
  have "d64 (2 ^ 1023 * 7) = PosInf"
    unfolding d64_def
    by (subst binary_round_eval [where E = 1025]) (simp_all add: round_half_even_def signed_inf_def)
  then show ?thesis by (simp add: idx_def weighted_sum_def)
qed

lemma num_exp_not_NaN: "x \<noteq> NaN \<Longrightarrow> num_exp x \<noteq> NaN"
  by (cases x) simp_all

lemma num_add_Num_not_NaN: "x \<noteq> NaN \<Longrightarrow> num_add (Num a) x \<noteq> NaN"
  by (cases x) simp_all

lemma num_div_Num_not_NaN: "a \<noteq> 0 \<Longrightarrow> x \<noteq> NaN \<Longrightarrow> num_div (Num a) x \<noteq> NaN"
  by (cases x) (simp_all add: signed_inf_def)

lemma num_mul_two_not_NaN: "x \<noteq> NaN \<Longrightarrow> num_mul x (Num 2) \<noteq> NaN"
  by (cases x) (simp_all add: signed_inf_def)

lemma num_neg_not_NaN: "x \<noteq> NaN \<Longrightarrow> num_neg x \<noteq> NaN"
  by (cases x) simp_all

text \<open>The clamp of a number other than \<open>NaN\<close> lies between its two bounds.\<close>

lemma clamp_range:
  assumes "c \<noteq> NaN" "lo \<le> hi"
  shows "\<exists>v. num_max (Num lo) (num_min (Num hi) c) = Num v \<and> lo \<le> v \<and> v \<le> hi"
  using assms by (cases c) auto

text \<open>
  C3. For every number \<open>std \<ge> 0\<close> (the comparison of the language, so \<open>+Infinity\<close>
  included and \<open>NaN\<close> excluded) the confidence is a number between 0.2 and 0.98: the
  sigmoid is never \<open>NaN\<close>, and the clamp bounds are the doubles nearest to 0.2, which is
  above it, and to 0.98, which is below it.
\<close>

theorem confidence_bounds:
  assumes "num_le (Num 0) s"
  shows "num_le (Num 0.2) (confidence s) \<and> num_le (confidence s) (Num 0.98) \<and>
    (\<exists>c. confidence s = Num c \<and> 0.2 \<le> c \<and> c \<le> 0.98)"
proof -
  have r1: "d64 (1 / 5) = Num (3602879701896397 / 18014398509481984)"
    by (subst d64_eval [where E = "- 3"]) (simp_all add: round_half_even_def)
  have r2: "d64 (49 / 50) = Num (2206763817411543 / 2251799813685248)"
    by (subst d64_eval [where E = "- 1"]) (simp_all add: round_half_even_def)
  from assms have "s \<noteq> NaN" by (cases s) simp_all
  then have "num_div (Num 1) (num_add (Num 1) (num_exp (num_mul (num_neg s) (Num 2)))) \<noteq> NaN"
    by (intro num_div_Num_not_NaN num_add_Num_not_NaN num_exp_not_NaN num_mul_two_not_NaN
        num_neg_not_NaN) simp_all
  then obtain v where v: "confidence s = Num v" "3602879701896397 / 18014398509481984 \<le> v" "v \<le> 2206763817411543 / 2251799813685248"
    using clamp_range [of _ "3602879701896397 / 18014398509481984" "2206763817411543 / 2251799813685248"]
    by (auto simp: confidence_def lit_def r1 r2 Let_def)
  then have "0.2 \<le> v" "v \<le> 0.98" by simp_all
  with v(1) show ?thesis by simp
qed

theorem confidence_bounds_witness:
  "num_le (Num 0) (Num 0) \<and> confidence (Num 0) = Num 0.5 \<and>
   num_le (Num 0.2) (confidence (Num 0)) \<and> num_le (confidence (Num 0)) (Num 0.98)"
proof -
  have r1: "d64 (1 / 5) = Num (3602879701896397 / 18014398509481984)"
    by (subst d64_eval [where E = "- 3"]) (simp_all add: round_half_even_def)
  have r2: "d64 (49 / 50) = Num (2206763817411543 / 2251799813685248)"
    by (subst d64_eval [where E = "- 1"]) (simp_all add: round_half_even_def)
  have r3: "d64 1 = Num 1"
    by (subst d64_eval [where E = 0]) (simp_all add: round_half_even_def)
  have r4: "d64 2 = Num 2"
    by (subst d64_eval [where E = 1]) (simp_all add: round_half_even_def)
  have r5: "d64 (1 / 2) = Num (1 / 2)"
    by (subst d64_eval [where E = "- 1"]) (simp_all add: round_half_even_def)
  have "confidence (Num 0) = Num 0.5"
    by (simp add: confidence_def lit_def r1 r2 r3 r4 r5)
  then show ?thesis using confidence_bounds [of "Num 0"] by simp
qed

text \<open>
  C9. For mean 0.5, std 0.2 and skew 0.1 the index is 2, and the lookup selects entry 2
  of the catalog, the Ford F-150: the weighted sum is exactly 7 in double precision,
  for the three decimal values as for the doubles nearest to them.
\<close>

theorem idx_example:
  "idx \<lparr>mean = Num 0.5, std = Num 0.2, skew = Num 0.1\<rparr> = Num 2 \<and>
   array_get VEHICLES (idx \<lparr>mean = Num 0.5, std = Num 0.2, skew = Num 0.1\<rparr>) =
     Some \<lparr>vmake = ''Ford'', model = ''F-150'', vclass = ''Pickup'', tire = ''275/65R18''\<rparr> \<and>
   idx \<lparr>mean = lit 0.5, std = lit 0.2, skew = lit 0.1\<rparr> = Num 2 \<and>
   array_get VEHICLES (idx \<lparr>mean = lit 0.5, std = lit 0.2, skew = lit 0.1\<rparr>) =
     Some \<lparr>vmake = ''Ford'', model = ''F-150'', vclass = ''Pickup'', tire = ''275/65R18''\<rparr>"
proof -
  have a1: "d64 (7 / 2) = Num (7 / 2)"
    by (subst d64_eval [where E = 1]) (simp_all add: round_half_even_def)
  have a2: "d64 (11 / 5) = Num (2476979795053773 / 1125899906842624)"
    by (subst d64_eval [where E = 1]) (simp_all add: round_half_even_def)
  have a3: "d64 (6417629469002957 / 1125899906842624) = Num (6417629469002957 / 1125899906842624)"
    by (subst d64_eval [where E = 2]) (simp_all add: round_half_even_def)
  have a4: "d64 (13 / 10) = Num (5854679515581645 / 4503599627370496)"
    by (subst d64_eval [where E = 0]) (simp_all add: round_half_even_def)
  have a5: "d64 (31525197391593473 / 4503599627370496) = Num 7"
    by (subst d64_eval [where E = 2]) (simp_all add: round_half_even_def)
  have b1: "d64 (1 / 2) = Num (1 / 2)"
    by (subst d64_eval [where E = "- 1"]) (simp_all add: round_half_even_def)
  have b2: "d64 (1 / 5) = Num (3602879701896397 / 18014398509481984)"
    by (subst d64_eval [where E = "- 3"]) (simp_all add: round_half_even_def)
  have b3: "d64 (1 / 10) = Num (3602879701896397 / 36028797018963968)"
    by (subst d64_eval [where E = "- 4"]) (simp_all add: round_half_even_def)
  have b4: "d64 (7 / 2) = Num (7 / 2)"
    by (subst d64_eval [where E = 1]) (simp_all add: round_half_even_def)
  have b5: "d64 (39631676720860367 / 18014398509481984) = Num (2476979795053773 / 1125899906842624)"
    by (subst d64_eval [where E = 1]) (simp_all add: round_half_even_def)
  have b6: "d64 (6417629469002957 / 1125899906842624) = Num (6417629469002957 / 1125899906842624)"
    by (subst d64_eval [where E = 2]) (simp_all add: round_half_even_def)
  have b7: "d64 (46837436124653161 / 36028797018963968) = Num (5854679515581645 / 4503599627370496)"
    by (subst d64_eval [where E = 0]) (simp_all add: round_half_even_def)
  have b8: "d64 (31525197391593473 / 4503599627370496) = Num 7"
    by (subst d64_eval [where E = 2]) (simp_all add: round_half_even_def)
  have a: "weighted_sum \<lparr>mean = Num 0.5, std = Num 0.2, skew = Num 0.1\<rparr> = Num 7"
    by (simp add: weighted_sum_def a1 a2 a3 a4 a5)
  have b: "weighted_sum \<lparr>mean = lit 0.5, std = lit 0.2, skew = lit 0.1\<rparr> = Num 7"
    by (simp add: weighted_sum_def lit_def b1 b2 b3 b4 b5 b6 b7 b8)
  have i: "idx \<lparr>mean = Num 0.5, std = Num 0.2, skew = Num 0.1\<rparr> = Num 2"
    "idx \<lparr>mean = lit 0.5, std = lit 0.2, skew = lit 0.1\<rparr> = Num 2"
    using idx_of_sum [OF a] idx_of_sum [OF b] by simp_all
  show ?thesis unfolding i by (simp add: array_get_def VEHICLES_def)
qed

section \<open>The preview helpers agree with the route\<close>

lemma luma_client_eq: "luma_client = luma"
  by (intro ext) (simp add: luma_client_def luma_def)

lemma grayscale_loop_client_eq: "grayscale_loop_client data i g gray = grayscale_loop data i g gray"
proof (induction data i g gray rule: grayscale_loop.induct)
  case (1 data i g gray)
  show ?case
  proof (cases "i < length data")
    case True
    show ?thesis
      by (subst grayscale_loop_client.simps, subst grayscale_loop.simps)
         (simp only: "1.IH" [OF True] luma_client_eq)
  next
    case False
    then show ?thesis
      by (subst grayscale_loop_client.simps, subst grayscale_loop.simps) simp
  qed
qed

lemma sobel_mag_client_eq: "sobel_mag_client = sobel_mag"
  by (intro ext)
     (simp add: sobel_mag_client_def sobel_mag_def sobel_tap_client_def sobel_tap_def
        gx_client_def gy_client_def gx_def gy_def)

text \<open>
  C10. The copies of \<open>computeGrayscale\<close> and \<open>sobelEdges\<close> in the page compute the same
  functions as those of the API route: equal buffers for equal channel values and
  dimensions.
\<close>

theorem client_copies_equal:
  "computeGrayscale_client data = computeGrayscale data \<and>
   sobelEdges_client gray width height = sobelEdges gray width height"
  by (simp add: computeGrayscale_client_def computeGrayscale_def grayscale_loop_client_eq
      sobelEdges_client_def sobelEdges_def sobel_row_client_def sobel_row_def sobel_mag_client_eq)

end
